theory Spec2Isabelle
  imports Complex_Main "HOL-Library.Log_Nat"
begin

section \<open>Python values used by \<^verbatim>\<open>bridge.py\<close>\<close>

text \<open>
  Exceptions. \<open>KeyboardInterrupt\<close> derives from \<open>BaseException\<close> only, so an
  \<^verbatim>\<open>except Exception\<close> clause does not catch it; the other three are subclasses of
  \<open>Exception\<close>. \<open>LibraryError\<close> stands for any \<open>Exception\<close> raised inside the
  vendor libraries (\<^verbatim>\<open>cuesdk\<close>, \<^verbatim>\<open>flux_led\<close>), \<open>RuntimeError\<close> for the ones
  \<^verbatim>\<open>bridge.py\<close> raises itself, \<open>ZeroDivisionError\<close> for a division by zero in
  \<^verbatim>\<open>bridge.py\<close>.
\<close>

datatype exn = KeyboardInterrupt | LibraryError string | RuntimeError string | ZeroDivisionError

fun is_Exception :: "exn \<Rightarrow> bool" where
  "is_Exception KeyboardInterrupt = False"
| "is_Exception (LibraryError m) = True"
| "is_Exception (RuntimeError m) = True"
| "is_Exception ZeroDivisionError = True"

subsection \<open>Floats\<close>

text \<open>
  A Python \<open>float\<close> is an IEEE 754 binary64 number. A finite one is modelled by the
  rational it denotes, and every float operation computes the exact result and rounds it
  to 53 significant bits, ties to even (\<open>fl\<close>). The exponent is not bounded in the
  model, so the model is binary64 wherever a result is zero or has a magnitude from 2 to
  the power -1022 up to, but excluding, 2 to the power 1024. With channels in [0,255]
  every float the program computes is zero or has a magnitude between 2 to the power -56
  and 2 to the power 9.
\<close>

definition float_exponent :: "rat \<Rightarrow> int" where
  "float_exponent x =
     (let (n, d) = quotient_of \<bar>x\<bar>; k = bitlen n - bitlen d
      in if 2 powi k \<le> \<bar>x\<bar> then k else k - 1)"

definition round_half_even :: "rat \<Rightarrow> int" where
  "round_half_even x =
     (let f = \<lfloor>x\<rfloor>; r = x - of_int f
      in if r < 1 / 2 then f else if 1 / 2 < r then f + 1
         else if even f then f else f + 1)"

definition fl :: "rat \<Rightarrow> rat" where
  "fl x = (if x = 0 then 0
           else let u = 2 powi (float_exponent x - 52)
                in of_int (round_half_even (x / u)) * u)"

text \<open>\<^verbatim>\<open>a / b\<close> on two ints: the correctly rounded quotient, or \<open>ZeroDivisionError\<close>.\<close>

definition py_truediv :: "int \<Rightarrow> int \<Rightarrow> exn + rat" where
  "py_truediv a b = (if b = 0 then Inl ZeroDivisionError else Inr (fl (of_int a / of_int b)))"

text \<open>The conversion of an int operand of a mixed int/float operation.\<close>

definition py_float :: "int \<Rightarrow> rat" where
  "py_float n = fl (of_int n)"

text \<open>\<^verbatim>\<open>int(x)\<close> on a float: truncation toward zero.\<close>

definition trunc_toward_zero :: "rat \<Rightarrow> int" where
  "trunc_toward_zero x = (if 0 \<le> x then \<lfloor>x\<rfloor> else \<lceil>x\<rceil>)"

definition py_int :: "rat \<Rightarrow> int" where
  "py_int x = trunc_toward_zero x"

type_synonym color = "int \<times> int \<times> int"


section \<open>The outside world\<close>

text \<open>
  The program talks to the iCUE SDK, to the Magic Home bulb, to the clock and to the
  logger. Each such call is an entry of a trace, with what the call did instead of
  returning, if anything: nothing, an \<open>Exception\<close> of the library, or a
  \<open>KeyboardInterrupt\<close> delivered while the call was running. The behaviour of the
  outside world is a family of functions of the trace so far, so any deterministic world
  is an \<open>env\<close>.

  The SDK returns a pair of a value and an error code, and the program never reads the
  error code: only the value is modelled. The program tests these values for truth
  only, so \<open>None\<close> and the empty list are both the empty list here. An LED position
  is its id, the one field the program reads.
\<close>

datatype device = Device (dev_id: string) (model: string)

datatype CorsairLedColor =
  CorsairLedColor (led_id: int) (led_r: int) (led_g: int) (led_b: int) (led_a: int)

datatype level = DEBUG | INFO | WARNING | ERROR

datatype call =
    Sdk_connect
  | Sdk_disconnect
  | Sdk_get_devices
  | Sdk_get_led_positions string
  | Sdk_get_led_colors string "CorsairLedColor list"
  | Time_sleep rat
  | WifiLedBulb string
  | Bulb_connect
  | Bulb_setRgb int int int
  | Bulb_turnOff
  | Log level string
  | Enter_turn_off

datatype signal = Interrupted | Failed string

fun raised :: "signal \<Rightarrow> exn" where
  "raised Interrupted = KeyboardInterrupt"
| "raised (Failed m) = LibraryError m"

type_synonym trace = "(call \<times> signal option) list"

record env =
  outcome :: "trace \<Rightarrow> call \<Rightarrow> signal option"
  connect_result :: "trace \<Rightarrow> bool"
  devices_result :: "trace \<Rightarrow> device list"
  led_positions_result :: "trace \<Rightarrow> string \<Rightarrow> int list"
  led_colors_result :: "trace \<Rightarrow> string \<Rightarrow> CorsairLedColor list \<Rightarrow> CorsairLedColor list"

definition perform :: "env \<Rightarrow> call \<Rightarrow> trace \<Rightarrow> signal option \<times> trace" where
  "perform env c tr = (let s = outcome env tr c in (s, tr @ [(c, s)]))"

text \<open>A logger call returns normally; only the fixed part of its message is kept.\<close>

definition logger :: "level \<Rightarrow> string \<Rightarrow> trace \<Rightarrow> trace" where
  "logger lvl msg tr = tr @ [(Log lvl msg, None)]"

section \<open>\<^verbatim>\<open>iCueController\<close>\<close>

record iCueController =
  device_id :: string
  device :: "device option"
  led_ids :: "int list"
  last_colors :: "color list option"

definition find_device :: "env \<Rightarrow> string \<Rightarrow> trace \<Rightarrow> (exn + device option) \<times> trace" where
  "find_device env did tr =
     (case perform env Sdk_get_devices tr of
        (Some s, tr1) \<Rightarrow> (Inl (raised s), tr1)
      | (None, tr1) \<Rightarrow> (Inr (find (\<lambda>d. dev_id d = did) (devices_result env tr)), tr1))"

definition find_all_led_ids :: "env \<Rightarrow> device option \<Rightarrow> trace \<Rightarrow> (exn + int list) \<times> trace" where
  "find_all_led_ids env dev tr =
     (case dev of
        None \<Rightarrow> (Inr [], tr)
      | Some d \<Rightarrow>
          (case perform env (Sdk_get_led_positions (dev_id d)) tr of
             (Some s, tr1) \<Rightarrow> (Inl (raised s), tr1)
           | (None, tr1) \<Rightarrow>
               (let led_positions = led_positions_result env tr (dev_id d)
                in if led_positions = [] then (Inr [], logger ERROR ''No LED positions found'' tr1)
                   else (Inr led_positions, logger INFO ''All LEDs found'' tr1))))"

text \<open>
  The part of \<^verbatim>\<open>__init__\<close> and of \<^verbatim>\<open>reconnect\<close> from \<^verbatim>\<open>sdk.connect\<close> on: both run
  the same statements. The state comes back too, since \<^verbatim>\<open>reconnect\<close> has assigned
  \<^verbatim>\<open>self.device\<close> by the time it raises "Device not found".
\<close>

definition connect_and_discover ::
  "env \<Rightarrow> iCueController \<Rightarrow> trace \<Rightarrow> exn option \<times> iCueController \<times> trace" where
  "connect_and_discover env st tr =
     (case perform env Sdk_connect tr of
        (Some s, tr1) \<Rightarrow> (Some (raised s), st, tr1)
      | (None, tr1) \<Rightarrow>
          if \<not> connect_result env tr
          then (Some (RuntimeError ''Could not connect to iCUE SDK''), st, tr1)
          else
            (case perform env (Time_sleep 1) tr1 of
               (Some s, tr2) \<Rightarrow> (Some (raised s), st, tr2)
             | (None, tr2) \<Rightarrow>
                 (case find_device env (device_id st) tr2 of
                    (Inl e, tr3) \<Rightarrow> (Some e, st, tr3)
                  | (Inr dev, tr3) \<Rightarrow>
                      (let st1 = st\<lparr>device := dev\<rparr>
                       in if dev = None then (Some (RuntimeError ''Device not found''), st1, tr3)
                          else
                            (case find_all_led_ids env dev tr3 of
                               (Inl e, tr4) \<Rightarrow> (Some e, st1, tr4)
                             | (Inr ids, tr4) \<Rightarrow> (None, st1\<lparr>led_ids := ids\<rparr>, tr4))))))"

definition iCueController_init ::
  "env \<Rightarrow> string \<Rightarrow> trace \<Rightarrow> (exn + iCueController) \<times> trace" where
  "iCueController_init env did tr =
     (case connect_and_discover env
             \<lparr>device_id = did, device = None, led_ids = [], last_colors = None\<rparr> tr of
        (Some e, st, tr1) \<Rightarrow> (Inl e, tr1)
      | (None, st, tr1) \<Rightarrow> (Inr st, logger INFO ''iCUE controller initialized with device'' tr1))"

definition reconnect ::
  "env \<Rightarrow> iCueController \<Rightarrow> trace \<Rightarrow> exn option \<times> iCueController \<times> trace" where
  "reconnect env st tr =
     (case
        (case perform env Sdk_disconnect tr of
           (Some s, tr1) \<Rightarrow> (Some (raised s), st, tr1)
         | (None, tr1) \<Rightarrow>
             (case perform env (Time_sleep 2) tr1 of
                (Some s, tr2) \<Rightarrow> (Some (raised s), st, tr2)
              | (None, tr2) \<Rightarrow>
                  (case connect_and_discover env st tr2 of
                     (Some e, st1, tr3) \<Rightarrow> (Some e, st1, tr3)
                   | (None, st1, tr3) \<Rightarrow>
                       (None, st1, logger INFO ''iCUE controller reconnected with device'' tr3))))
      of
        (Some e, st1, tr1) \<Rightarrow>
          if is_Exception e then (Some e, st1, logger ERROR ''Error reconnecting to iCUE'' tr1)
          else (Some e, st1, tr1)
      | (None, st1, tr1) \<Rightarrow> (None, st1, tr1))"


text \<open>Lines 158 to 166 of \<^verbatim>\<open>get_average_color\<close>: the three sums, the count, the averages.\<close>

definition compute_average :: "CorsairLedColor list \<Rightarrow> exn + color" where
  "compute_average led_colors =
     (let total_r = sum_list (map led_r led_colors);
          total_g = sum_list (map led_g led_colors);
          total_b = sum_list (map led_b led_colors);
          count = int (length led_colors)
      in case py_truediv total_r count of
           Inl e \<Rightarrow> Inl e
         | Inr qr \<Rightarrow>
             (case py_truediv total_g count of
                Inl e \<Rightarrow> Inl e
              | Inr qg \<Rightarrow>
                  (case py_truediv total_b count of
                     Inl e \<Rightarrow> Inl e
                   | Inr qb \<Rightarrow> Inr (py_int qr, py_int qg, py_int qb))))"

text \<open>The two statements \<^verbatim>\<open>self.reconnect(); return None\<close>, which occur three times.\<close>

definition reconnect_return_None ::
  "env \<Rightarrow> iCueController \<Rightarrow> trace \<Rightarrow> (exn + color option) \<times> iCueController \<times> trace" where
  "reconnect_return_None env st tr =
     (case reconnect env st tr of
        (Some e, st1, tr1) \<Rightarrow> (Inl e, st1, tr1)
      | (None, st1, tr1) \<Rightarrow> (Inr None, st1, tr1))"

text \<open>The list of line 144, one zeroed entry per LED id.\<close>

definition led_request :: "iCueController \<Rightarrow> CorsairLedColor list" where
  "led_request st = map (\<lambda>i. CorsairLedColor i 0 0 0 255) (led_ids st)"

text \<open>The tuple of line 152.\<close>

definition rgb_tuples :: "CorsairLedColor list \<Rightarrow> color list" where
  "rgb_tuples led_colors = map (\<lambda>led. (led_r led, led_g led, led_b led)) led_colors"

text \<open>
  The body of the \<^verbatim>\<open>try\<close> statement of \<^verbatim>\<open>get_average_color\<close>, lines 144 to 166;
  \<open>d\<close> is \<^verbatim>\<open>self.device\<close>, which the test of line 138 has found set.
\<close>

definition get_average_color_try ::
  "env \<Rightarrow> iCueController \<Rightarrow> device \<Rightarrow> trace
     \<Rightarrow> (exn + color option) \<times> iCueController \<times> trace" where
  "get_average_color_try env st d tr =
     (let request = led_request st
      in case perform env (Sdk_get_led_colors (dev_id d) request) tr of
           (Some s, tr1) \<Rightarrow> (Inl (raised s), st, tr1)
         | (None, tr1) \<Rightarrow>
             (let led_colors = led_colors_result env tr (dev_id d) request
              in if led_colors = []
                 then reconnect_return_None env st
                        (logger WARNING ''No LED colors received, trying to reconnect...'' tr1)
                 else
                   (let current_colors = rgb_tuples led_colors
                    in if Some current_colors = last_colors st then (Inr None, st, tr1)
                       else
                         (let st1 = st\<lparr>last_colors := Some current_colors\<rparr>
                          in case compute_average led_colors of
                               Inl e \<Rightarrow> (Inl e, st1, tr1)
                             | Inr avg \<Rightarrow>
                                 (Inr (Some avg), st1, logger INFO ''New average color'' tr1)))))"

definition get_average_color ::
  "env \<Rightarrow> iCueController \<Rightarrow> trace \<Rightarrow> (exn + color option) \<times> iCueController \<times> trace" where
  "get_average_color env st tr =
     (case device st of
        None \<Rightarrow>
          reconnect_return_None env st
            (logger WARNING ''No device or LEDs found, trying to reconnect...'' tr)
      | Some d \<Rightarrow>
          if led_ids st = []
          then reconnect_return_None env st
                 (logger WARNING ''No device or LEDs found, trying to reconnect...'' tr)
          else
            (case get_average_color_try env st d tr of
               (Inl e, st1, tr1) \<Rightarrow>
                 if is_Exception e
                 then reconnect_return_None env st1 (logger ERROR ''Error getting LED colors'' tr1)
                 else (Inl e, st1, tr1)
             | (Inr res, st1, tr1) \<Rightarrow> (Inr res, st1, tr1)))"

section \<open>\<^verbatim>\<open>MagicHomeController\<close>\<close>

record MagicHomeController =
  ip_address :: string
  bulb :: "string option"
  last_color :: "color option"
  transition_steps :: nat
  transition_delay :: rat

definition MagicHomeController_init :: "string \<Rightarrow> MagicHomeController" where
  "MagicHomeController_init ip =
     \<lparr>ip_address = ip, bulb = None, last_color = None,
      transition_steps = 10, transition_delay = 1 / 50\<rparr>"

text \<open>
  \<^verbatim>\<open>connect\<close>. \<open>bulb st = Some ip\<close> stands for a \<^verbatim>\<open>WifiLedBulb\<close> object made for address
  \<open>ip\<close>. The result is \<open>Some KeyboardInterrupt\<close> when an interrupt passes through
  the \<^verbatim>\<open>except Exception\<close> clause.
\<close>

definition connect ::
  "env \<Rightarrow> MagicHomeController \<Rightarrow> trace \<Rightarrow> exn option \<times> MagicHomeController \<times> trace" where
  "connect env st tr =
     (case perform env (WifiLedBulb (ip_address st)) tr of
        (Some Interrupted, tr1) \<Rightarrow> (Some KeyboardInterrupt, st, tr1)
      | (Some (Failed m), tr1) \<Rightarrow>
          (None, st\<lparr>bulb := None\<rparr>, logger ERROR ''Error connecting to Magic Home'' tr1)
      | (None, tr1) \<Rightarrow>
          (let st1 = st\<lparr>bulb := Some (ip_address st)\<rparr>
           in case perform env Bulb_connect tr1 of
                (Some Interrupted, tr2) \<Rightarrow> (Some KeyboardInterrupt, st1, tr2)
              | (Some (Failed m), tr2) \<Rightarrow>
                  (None, st1\<lparr>bulb := None\<rparr>, logger ERROR ''Error connecting to Magic Home'' tr2)
              | (None, tr2) \<Rightarrow>
                  (None, st1, logger INFO ''Magic Home controller connected'' tr2)))"

text \<open>One channel of \<^verbatim>\<open>interpolate_color\<close>: \<^verbatim>\<open>int(start + (end - start) * progress)\<close>.\<close>

definition interpolate_channel :: "int \<Rightarrow> int \<Rightarrow> rat \<Rightarrow> int" where
  "interpolate_channel start end' progress =
     py_int (fl (py_float start + fl (py_float (end' - start) * progress)))"

fun interpolate_color :: "color \<Rightarrow> color \<Rightarrow> rat \<Rightarrow> color" where
  "interpolate_color (sr, sg, sb) (er, eg, eb) progress =
     (interpolate_channel sr er progress,
      interpolate_channel sg eg progress,
      interpolate_channel sb eb progress)"

text \<open>
  The \<^verbatim>\<open>for\<close> loop of \<^verbatim>\<open>set_color\<close> over the remaining steps. \<open>Inr True\<close>: the loop
  ran to its end; \<open>Inr False\<close>: the \<^verbatim>\<open>except\<close> clause returned from \<^verbatim>\<open>set_color\<close>;
  \<open>Inl e\<close>: \<open>e\<close> left the loop.
\<close>

fun fade_loop ::
  "env \<Rightarrow> MagicHomeController \<Rightarrow> color \<Rightarrow> color \<Rightarrow> nat list \<Rightarrow> trace
     \<Rightarrow> (exn + bool) \<times> MagicHomeController \<times> trace" where
  "fade_loop env st start target [] tr = (Inr True, st, tr)"
| "fade_loop env st start target (step # steps) tr =
     (case py_truediv (int step) (int (transition_steps st)) of
        Inl e \<Rightarrow> (Inl e, st, tr)
      | Inr progress \<Rightarrow>
          (case interpolate_color start target progress of
             (cr, cg, cb) \<Rightarrow>
               (case perform env (Bulb_setRgb cr cg cb) tr of
                  (Some Interrupted, tr1) \<Rightarrow> (Inl KeyboardInterrupt, st, tr1)
                | (Some (Failed m), tr1) \<Rightarrow>
                    (Inr False, st\<lparr>bulb := None\<rparr>,
                     logger WARNING ''Error during color transition'' tr1)
                | (None, tr1) \<Rightarrow>
                    (case perform env (Time_sleep (transition_delay st)) tr1 of
                       (Some Interrupted, tr2) \<Rightarrow> (Inl KeyboardInterrupt, st, tr2)
                     | (Some (Failed m), tr2) \<Rightarrow>
                         (Inr False, st\<lparr>bulb := None\<rparr>,
                          logger WARNING ''Error during color transition'' tr2)
                     | (None, tr2) \<Rightarrow> fade_loop env st start target steps tr2))))"

text \<open>\<^verbatim>\<open>set_color\<close> once \<^verbatim>\<open>self.bulb\<close> is set, from line 219 on.\<close>

definition set_color_connected ::
  "env \<Rightarrow> MagicHomeController \<Rightarrow> color \<Rightarrow> trace \<Rightarrow> exn option \<times> MagicHomeController \<times> trace" where
  "set_color_connected env st color tr =
     (case color of
        (r, g, b) \<Rightarrow>
          (case last_color st of
             Some start \<Rightarrow>
               (case fade_loop env st start (r, g, b) [1 ..< transition_steps st + 1] tr of
                  (Inl e, st1, tr1) \<Rightarrow> (Some e, st1, tr1)
                | (Inr False, st1, tr1) \<Rightarrow> (None, st1, tr1)
                | (Inr True, st1, tr1) \<Rightarrow>
                    (None, st1\<lparr>last_color := Some (r, g, b)\<rparr>, logger INFO ''Set new color'' tr1))
           | None \<Rightarrow>
               (case perform env (Bulb_setRgb r g b) tr of
                  (Some Interrupted, tr1) \<Rightarrow> (Some KeyboardInterrupt, st, tr1)
                | (Some (Failed m), tr1) \<Rightarrow>
                    (None, st\<lparr>bulb := None\<rparr>, logger WARNING ''Error setting initial color'' tr1)
                | (None, tr1) \<Rightarrow>
                    (None, st\<lparr>last_color := Some (r, g, b)\<rparr>, logger INFO ''Set new color'' tr1))))"

definition set_color ::
  "env \<Rightarrow> MagicHomeController \<Rightarrow> color \<Rightarrow> trace \<Rightarrow> exn option \<times> MagicHomeController \<times> trace" where
  "set_color env st color tr =
     (if bulb st = None
      then
        (case connect env st tr of
           (Some e, st1, tr1) \<Rightarrow> (Some e, st1, tr1)
         | (None, st1, tr1) \<Rightarrow>
             if bulb st1 = None then (None, st1, tr1)
             else set_color_connected env st1 color tr1)
      else set_color_connected env st color tr)"

text \<open>
  \<^verbatim>\<open>turn_off\<close>. The entry \<open>Enter_turn_off\<close> is not a call of the program: it marks in
  the trace that the method was entered, so that its invocations can be counted.
\<close>

definition turn_off_connected ::
  "env \<Rightarrow> MagicHomeController \<Rightarrow> trace \<Rightarrow> exn option \<times> MagicHomeController \<times> trace" where
  "turn_off_connected env st tr =
     (case perform env Bulb_turnOff tr of
        (Some Interrupted, tr1) \<Rightarrow> (Some KeyboardInterrupt, st, tr1)
      | (Some (Failed m), tr1) \<Rightarrow>
          (None, st\<lparr>bulb := None\<rparr>, logger WARNING ''Error turning off LED strip'' tr1)
      | (None, tr1) \<Rightarrow> (None, st, logger INFO ''LED strip turned off'' tr1))"

definition turn_off ::
  "env \<Rightarrow> MagicHomeController \<Rightarrow> trace \<Rightarrow> exn option \<times> MagicHomeController \<times> trace" where
  "turn_off env st tr0 =
     (let tr = tr0 @ [(Enter_turn_off, None)]
      in if bulb st = None
         then
           (case connect env st tr of
              (Some e, st1, tr1) \<Rightarrow> (Some e, st1, tr1)
            | (None, st1, tr1) \<Rightarrow>
                if bulb st1 = None then (None, st1, tr1)
                else turn_off_connected env st1 tr1)
         else turn_off_connected env st tr)"


section \<open>\<^verbatim>\<open>start_bridge\<close>\<close>

record config =
  icue_device_id :: string
  magichome_ip :: string

text \<open>
  The \<^verbatim>\<open>while True\<close> loop, for at most \<open>fuel\<close> iterations. The first component is the
  exception that ended the loop, or \<open>None\<close> when the loop was still running after
  \<open>fuel\<close> iterations. The loop has no other exit.
\<close>

fun bridge_loop ::
  "nat \<Rightarrow> env \<Rightarrow> iCueController \<Rightarrow> MagicHomeController \<Rightarrow> trace
     \<Rightarrow> exn option \<times> iCueController \<times> MagicHomeController \<times> trace" where
  "bridge_loop 0 env icue magic_home tr = (None, icue, magic_home, tr)"
| "bridge_loop (Suc fuel) env icue magic_home tr =
     (case get_average_color env icue tr of
        (Inl e, icue1, tr1) \<Rightarrow> (Some e, icue1, magic_home, tr1)
      | (Inr color, icue1, tr1) \<Rightarrow>
          (case (case color of
                   None \<Rightarrow> (None, magic_home, tr1)
                 | Some c \<Rightarrow> set_color env magic_home c tr1) of
             (Some e, magic_home1, tr2) \<Rightarrow> (Some e, icue1, magic_home1, tr2)
           | (None, magic_home1, tr2) \<Rightarrow>
               (case perform env (Time_sleep (1 / 10)) tr2 of
                  (Some s, tr3) \<Rightarrow> (Some (raised s), icue1, magic_home1, tr3)
                | (None, tr3) \<Rightarrow> bridge_loop fuel env icue1 magic_home1 tr3)))"

text \<open>
  \<^verbatim>\<open>start_bridge\<close>: \<open>None\<close> when the loop is still running after \<open>fuel\<close> iterations,
  otherwise the exception \<^verbatim>\<open>start_bridge\<close> raises, if any, and the trace. The calls of
  \<^verbatim>\<open>print\<close> are left out, and the configuration has both of its keys.
\<close>

definition start_bridge :: "env \<Rightarrow> config \<Rightarrow> nat \<Rightarrow> trace \<Rightarrow> (exn option \<times> trace) option" where
  "start_bridge env cfg fuel tr =
     (case iCueController_init env (icue_device_id cfg) tr of
        (Inl e, tr1) \<Rightarrow>
          if is_Exception e then Some (None, logger ERROR ''Error initializing controllers'' tr1)
          else Some (Some e, tr1)
      | (Inr icue, tr1) \<Rightarrow>
          (case bridge_loop fuel env icue (MagicHomeController_init (magichome_ip cfg)) tr1 of
             (None, icue1, magic_home1, tr2) \<Rightarrow> None
           | (Some e, icue1, magic_home1, tr2) \<Rightarrow>
               (case turn_off env magic_home1
                       (if is_Exception e then logger ERROR ''Unexpected error'' tr2 else tr2) of
                  (Some e', magic_home2, tr3) \<Rightarrow>
                    if is_Exception e'
                    then Some (None, logger ERROR ''Error turning off LED strip'' tr3)
                    else Some (Some e', tr3)
                | (None, magic_home2, tr3) \<Rightarrow> Some (None, tr3))))"


section \<open>Vocabulary of the claims\<close>

text \<open>The read of \<^verbatim>\<open>get_average_color\<close> in state \<open>st\<close> after trace \<open>tr\<close> returns \<open>leds\<close>.\<close>

definition sample_reads ::
  "env \<Rightarrow> iCueController \<Rightarrow> device \<Rightarrow> trace \<Rightarrow> CorsairLedColor list \<Rightarrow> bool" where
  "sample_reads env st d tr leds \<longleftrightarrow>
     outcome env tr (Sdk_get_led_colors (dev_id d) (led_request st)) = None
     \<and> led_colors_result env tr (dev_id d) (led_request st) = leds"

text \<open>The trace after that read.\<close>

definition after_read :: "iCueController \<Rightarrow> device \<Rightarrow> trace \<Rightarrow> trace" where
  "after_read st d tr = tr @ [(Sdk_get_led_colors (dev_id d) (led_request st), None)]"

definition channel_ok :: "int \<Rightarrow> bool" where
  "channel_ok c \<longleftrightarrow> 0 \<le> c \<and> c \<le> 255"

definition color_ok :: "color \<Rightarrow> bool" where
  "color_ok c = (case c of (r, g, b) \<Rightarrow> channel_ok r \<and> channel_ok g \<and> channel_ok b)"

definition leds_ok :: "CorsairLedColor list \<Rightarrow> bool" where
  "leds_ok leds =
     list_all (\<lambda>led. channel_ok (led_r led) \<and> channel_ok (led_g led) \<and> channel_ok (led_b led)) leds"

text \<open>
  The spec's aggregate: the arithmetic mean of a channel over all elements, truncated
  toward zero. The mean is the exact rational here.
\<close>

definition truncated_mean :: "int list \<Rightarrow> int" where
  "truncated_mean xs = trunc_toward_zero (of_int (sum_list xs) / of_int (int (length xs)))"

definition spec_aggregate :: "CorsairLedColor list \<Rightarrow> color" where
  "spec_aggregate leds =
     (truncated_mean (map led_r leds), truncated_mean (map led_g leds),
      truncated_mean (map led_b leds))"

text \<open>The \<^verbatim>\<open>setRgb\<close> calls of a trace, in order, each with what it did instead of returning.\<close>

fun write_of :: "call \<times> signal option \<Rightarrow> (color \<times> signal option) list" where
  "write_of (Bulb_setRgb r g b, s) = [((r, g, b), s)]"
| "write_of (c, s) = []"

definition writes :: "trace \<Rightarrow> (color \<times> signal option) list" where
  "writes tr = concat (map write_of tr)"

text \<open>The value of \<^verbatim>\<open>progress\<close> at a step of the loop of \<^verbatim>\<open>set_color\<close>, and the colors of a whole fade.\<close>

definition progress_at :: "MagicHomeController \<Rightarrow> nat \<Rightarrow> rat" where
  "progress_at st step = fl (of_int (int step) / of_int (int (transition_steps st)))"

definition fade_colors :: "MagicHomeController \<Rightarrow> color \<Rightarrow> color \<Rightarrow> color list" where
  "fade_colors st start target =
     map (\<lambda>step. interpolate_color start target (progress_at st step))
       [1 ..< transition_steps st + 1]"

text \<open>
  A connection is at hand for a call of \<^verbatim>\<open>set_color\<close> or \<^verbatim>\<open>turn_off\<close>: \<^verbatim>\<open>self.bulb\<close> is
  set, or the one attempt to connect succeeds.
\<close>

definition connection_available :: "env \<Rightarrow> MagicHomeController \<Rightarrow> trace \<Rightarrow> bool" where
  "connection_available env st tr \<longleftrightarrow>
     bulb st \<noteq> None
     \<or> (fst (connect env st tr) = None \<and> bulb (fst (snd (connect env st tr))) \<noteq> None)"

text \<open>
  The spec's interpolation: \<open>value(i) = S + (E - S) \<times> (i / N)\<close>, truncated to an integer,
  over the rationals.
\<close>

definition spec_fade_value :: "int \<Rightarrow> int \<Rightarrow> nat \<Rightarrow> nat \<Rightarrow> int" where
  "spec_fade_value s e i n =
     trunc_toward_zero (of_int s + (of_int e - of_int s) * (of_nat i / of_nat n))"

fun spec_fade_color :: "color \<Rightarrow> color \<Rightarrow> nat \<Rightarrow> nat \<Rightarrow> color" where
  "spec_fade_color (sr, sg, sb) (er, eg, eb) i n =
     (spec_fade_value sr er i n, spec_fade_value sg eg i n, spec_fade_value sb eb i n)"

text \<open>
  How a commanded channel value \<open>v\<close> relates to the spec's value at step \<open>i\<close> of \<open>n\<close>:
  equal, unless the exact interpolation is an integer, where \<open>v\<close> may fall one below.
\<close>

definition near_spec :: "int \<Rightarrow> int \<Rightarrow> nat \<Rightarrow> nat \<Rightarrow> int \<Rightarrow> bool" where
  "near_spec s e i n v \<longleftrightarrow>
     (if int n dvd (e - s) * int i
      then v = spec_fade_value s e i n \<or> v = spec_fade_value s e i n - 1
      else v = spec_fade_value s e i n)"

fun color_near_spec :: "color \<Rightarrow> color \<Rightarrow> nat \<Rightarrow> nat \<Rightarrow> color \<Rightarrow> bool" where
  "color_near_spec (sr, sg, sb) (er, eg, eb) i n (r, g, b) \<longleftrightarrow>
     near_spec sr er i n r \<and> near_spec sg eg i n g \<and> near_spec sb eb i n b"

definition monotonic :: "int list \<Rightarrow> bool" where
  "monotonic xs \<longleftrightarrow> sorted xs \<or> sorted (rev xs)"

definition channelwise_monotonic :: "color list \<Rightarrow> bool" where
  "channelwise_monotonic cs \<longleftrightarrow>
     monotonic (map fst cs) \<and> monotonic (map (fst \<circ> snd) cs) \<and> monotonic (map (snd \<circ> snd) cs)"

definition between :: "int \<Rightarrow> int \<Rightarrow> int \<Rightarrow> bool" where
  "between a b x \<longleftrightarrow> min a b \<le> x \<and> x \<le> max a b"

fun color_between :: "color \<Rightarrow> color \<Rightarrow> color \<Rightarrow> bool" where
  "color_between (sr, sg, sb) (er, eg, eb) (r, g, b) \<longleftrightarrow>
     between sr er r \<and> between sg eg g \<and> between sb eb b"

text \<open>
  The trace at the call of \<^verbatim>\<open>reconnect\<close> after a read that raised \<open>Failed m\<close>, and after
  a read that returned no element.
\<close>

definition read_call :: "iCueController \<Rightarrow> device \<Rightarrow> call" where
  "read_call st d = Sdk_get_led_colors (dev_id d) (led_request st)"

definition failed_read_trace :: "iCueController \<Rightarrow> device \<Rightarrow> trace \<Rightarrow> string \<Rightarrow> trace" where
  "failed_read_trace st d tr m =
     logger ERROR ''Error getting LED colors'' (tr @ [(read_call st d, Some (Failed m))])"

definition empty_read_trace :: "iCueController \<Rightarrow> device \<Rightarrow> trace \<Rightarrow> trace" where
  "empty_read_trace st d tr =
     logger WARNING ''No LED colors received, trying to reconnect...'' (after_read st d tr)"

text \<open>How often \<^verbatim>\<open>turn_off\<close> was entered in a trace.\<close>

definition turn_off_calls :: "trace \<Rightarrow> nat" where
  "turn_off_calls tr = length (filter (\<lambda>e. fst e = Enter_turn_off) tr)"

text \<open>
  Every color the device reports has its channels in \<open>[0,255]\<close>; every color written to
  the bulb so far has; the actuator's last color, if known, has.
\<close>

definition readings_ok :: "env \<Rightarrow> bool" where
  "readings_ok env \<longleftrightarrow> (\<forall>tr did request. leds_ok (led_colors_result env tr did request))"

definition writes_ok :: "trace \<Rightarrow> bool" where
  "writes_ok tr = list_all (\<lambda>w. color_ok (fst w)) (writes tr)"

definition actuator_ok :: "MagicHomeController \<Rightarrow> bool" where
  "actuator_ok st \<longleftrightarrow>
     0 < transition_steps st
     \<and> (case last_color st of None \<Rightarrow> True | Some c \<Rightarrow> color_ok c)"

section \<open>Concrete worlds\<close>

text \<open>
  A world given by what the call at each position of the trace does and, for a read of
  the LED colors at that position, what it returns. It has one device with two LEDs.
\<close>

definition keyboard :: device where
  "keyboard = Device ''keyboard-1'' ''K70''"

definition world :: "(nat \<Rightarrow> signal option) \<Rightarrow> (nat \<Rightarrow> CorsairLedColor list) \<Rightarrow> env" where
  "world sig leds =
     \<lparr>outcome = (\<lambda>tr c. sig (length tr)),
      connect_result = (\<lambda>tr. True),
      devices_result = (\<lambda>tr. [keyboard]),
      led_positions_result = (\<lambda>tr did. [1, 2]),
      led_colors_result = (\<lambda>tr did request. leds (length tr))\<rparr>"

definition reader :: iCueController where
  "reader = \<lparr>device_id = ''keyboard-1'', device = Some keyboard, led_ids = [1, 2],
             last_colors = None\<rparr>"

definition red_green :: "CorsairLedColor list" where
  "red_green = [CorsairLedColor 1 255 0 0 255, CorsairLedColor 2 0 255 0 255]"

definition green_red :: "CorsairLedColor list" where
  "green_red = [CorsairLedColor 1 0 255 0 255, CorsairLedColor 2 255 0 0 255]"

text \<open>The first read returns red then green, every later read green then red.\<close>

definition swapping_world :: env where
  "swapping_world = world (\<lambda>n. None) (\<lambda>n. if n = 0 then red_green else green_red)"

definition after_first_sample :: "(exn + color option) \<times> iCueController \<times> trace" where
  "after_first_sample = get_average_color swapping_world reader []"

text \<open>Every read returns red then green.\<close>

definition steady_world :: env where
  "steady_world = world (\<lambda>n. None) (\<lambda>n. red_green)"

definition after_steady_sample :: "(exn + color option) \<times> iCueController \<times> trace" where
  "after_steady_sample = get_average_color steady_world reader []"

text \<open>A freshly constructed actuator, and one that is connected and has commanded black.\<close>

definition fresh_actuator :: MagicHomeController where
  "fresh_actuator = MagicHomeController_init ''192.168.1.50''"

definition black_actuator :: MagicHomeController where
  "black_actuator = fresh_actuator\<lparr>bulb := Some ''192.168.1.50'', last_color := Some (0, 0, 0)\<rparr>"

definition first_command :: "exn option \<times> MagicHomeController \<times> trace" where
  "first_command = set_color steady_world fresh_actuator (127, 127, 0) []"

text \<open>
  A fade from black in which the third write fails: the call at position 4 of the trace
  (write, sleep, write, sleep, write) raises.
\<close>

definition failing_world :: env where
  "failing_world = world (\<lambda>n. if n = 4 then Some (Failed ''timed out'') else None) (\<lambda>n. red_green)"

definition broken_fade :: "exn option \<times> MagicHomeController \<times> trace" where
  "broken_fade = set_color failing_world black_actuator (100, 200, 50) []"

text \<open>Two fades from black in a world where every call succeeds.\<close>

definition spec_fade :: "exn option \<times> MagicHomeController \<times> trace" where
  "spec_fade = set_color steady_world black_actuator (100, 200, 50) []"

definition fade_to_90 :: "exn option \<times> MagicHomeController \<times> trace" where
  "fade_to_90 = set_color steady_world black_actuator (90, 0, 0) []"

text \<open>
  The read at position 0 of the trace fails, and the device is gone: the SDK lists no
  device.
\<close>

definition unplugged_world :: env where
  "unplugged_world =
     (world (\<lambda>n. if n = 0 then Some (Failed ''read failed'') else None) (\<lambda>n. red_green))
       \<lparr>devices_result := (\<lambda>tr. [])\<rparr>"

text \<open>
  Three samples in a world where the read at position 2 of the trace, the second one,
  fails and everything else succeeds, every read returning red then green.
\<close>

definition flaky_world :: env where
  "flaky_world = world (\<lambda>n. if n = 2 then Some (Failed ''read failed'') else None) (\<lambda>n. red_green)"

definition sample_1 :: "(exn + color option) \<times> iCueController \<times> trace" where
  "sample_1 = get_average_color flaky_world reader []"

definition sample_2 :: "(exn + color option) \<times> iCueController \<times> trace" where
  "sample_2 = get_average_color flaky_world (fst (snd sample_1)) (snd (snd sample_1))"

definition sample_3 :: "(exn + color option) \<times> iCueController \<times> trace" where
  "sample_3 = get_average_color flaky_world (fst (snd sample_2)) (snd (snd sample_2))"

text \<open>
  A run of the bridge that is interrupted in the sleep of its first tick (position 13 of
  the trace) and whose power-off command then fails (position 15).
\<close>

definition stop_world :: env where
  "stop_world =
     world (\<lambda>n. if n = 13 then Some Interrupted
                else if n = 15 then Some (Failed ''unreachable'') else None)
       (\<lambda>n. red_green)"

definition demo_config :: config where
  "demo_config = \<lparr>icue_device_id = ''keyboard-1'', magichome_ip = ''192.168.1.50''\<rparr>"

definition started :: "(exn + iCueController) \<times> trace" where
  "started = iCueController_init stop_world (icue_device_id demo_config) []"

definition first_tick ::
  "exn option \<times> iCueController \<times> MagicHomeController \<times> trace" where
  "first_tick =
     bridge_loop 1 stop_world reader (MagicHomeController_init (magichome_ip demo_config))
       (snd started)"

definition stopped_bridge :: "(exn option \<times> trace) option" where
  "stopped_bridge = start_bridge stop_world demo_config 1 []"

text \<open>Two ticks of the bridge in the world where every call succeeds.\<close>

definition two_ticks ::
  "exn option \<times> iCueController \<times> MagicHomeController \<times> trace" where
  "two_ticks = bridge_loop 2 steady_world reader fresh_actuator []"

section \<open>Rounding to a float\<close>

lemma float_exponent_bounds:
  assumes "x \<noteq> 0"
  shows "2 powi (float_exponent x) \<le> \<bar>x\<bar> \<and> \<bar>x\<bar> < 2 powi (float_exponent x + 1)"
proof -
  obtain n d where q: "quotient_of \<bar>x\<bar> = (n, d)" by (cases "quotient_of \<bar>x\<bar>")
  have d: "0 < d" using q by (rule quotient_of_denom_pos)
  have x: "\<bar>x\<bar> = of_int n / of_int d" using q by (rule quotient_of_div)
  have n: "0 < n" using assms x d
    by (metis abs_le_zero_iff divide_le_0_iff linorder_not_le of_int_0 of_int_le_iff of_int_pos order.asym zero_less_abs_iff)
  define k where "k = bitlen n - bitlen d"
  have bl: "2 powi (bitlen m - 1) \<le> (of_int m :: rat) \<and> (of_int m :: rat) < 2 powi (bitlen m)" if "0 < m" for m
  proof -
    have b1: "1 \<le> bitlen m" using that by (simp add: bitlen_alt_def)
    have "(2::int) ^ nat (bitlen m - 1) \<le> m \<and> m < 2 ^ nat (bitlen m)" using bitlen_bounds [OF that] .
    then have "(of_int ((2::int) ^ nat (bitlen m - 1)) :: rat) \<le> of_int m \<and> (of_int m :: rat) < of_int (2 ^ nat (bitlen m))"
      by (simp only: of_int_le_iff of_int_less_iff)
    then show ?thesis using b1 by (simp add: power_int_def)
  qed
  have bn: "2 powi (bitlen n - 1) \<le> (of_int n :: rat)" "(of_int n :: rat) < 2 powi (bitlen n)"
    using bl [OF n] by simp_all
  have bd: "2 powi (bitlen d - 1) \<le> (of_int d :: rat)" "(of_int d :: rat) < 2 powi (bitlen d)"
    using bl [OF d] by simp_all
  have up: "\<bar>x\<bar> < 2 powi (k + 1)"
  proof -
    have "of_int n / of_int d < (2::rat) powi (bitlen n) / 2 powi (bitlen d - 1)"
      using bn bd n by (intro frac_less) simp_all
    also have "\<dots> = 2 powi (k + 1)"
      by (simp add: k_def power_int_diff [symmetric] algebra_simps)
    finally show ?thesis by (simp add: x)
  qed
  have lo: "2 powi (k - 1) \<le> \<bar>x\<bar>"
  proof -
    have "(2::rat) powi (bitlen n - 1) / 2 powi (bitlen d) \<le> of_int n / of_int d"
      using bn bd d n by (intro frac_le) simp_all
    moreover have "(2::rat) powi (bitlen n - 1) / 2 powi (bitlen d) = 2 powi (k - 1)"
      by (simp add: k_def power_int_diff [symmetric] algebra_simps)
    ultimately show ?thesis by (simp add: x)
  qed
  have e: "float_exponent x = (if 2 powi k \<le> \<bar>x\<bar> then k else k - 1)"
    by (simp add: float_exponent_def q k_def)
  show ?thesis
    using up lo by (simp add: e)
qed

lemma round_half_even_of_int: "round_half_even (of_int n) = n"
  by (simp add: round_half_even_def)

lemma round_half_even_range:
  "\<lfloor>x\<rfloor> \<le> round_half_even x \<and> round_half_even x \<le> \<lfloor>x\<rfloor> + 1"
  by (simp add: round_half_even_def Let_def)

lemma round_half_even_mono:
  assumes "x \<le> y"
  shows "round_half_even x \<le> round_half_even y"
proof (cases "\<lfloor>x\<rfloor> = \<lfloor>y\<rfloor>")
  case True
  show ?thesis
  proof (cases "1 / 2 < y - of_int \<lfloor>y\<rfloor>")
    case hi: True
    then have "round_half_even y = \<lfloor>y\<rfloor> + 1"
      by (simp add: round_half_even_def Let_def)
    then show ?thesis
      using round_half_even_range [of x] True by linarith
  next
    case lo: False
    show ?thesis
    proof (cases "x = y")
      case False
      then have "x - of_int \<lfloor>x\<rfloor> < 1 / 2"
        using assms lo True by simp
      then have "round_half_even x = \<lfloor>x\<rfloor>"
        by (simp add: round_half_even_def Let_def)
      then show ?thesis
        using round_half_even_range [of y] True by linarith
    qed simp
  qed
next
  case False
  then have "\<lfloor>x\<rfloor> + 1 \<le> \<lfloor>y\<rfloor>"
    using floor_mono [OF assms] by linarith
  then show ?thesis
    using round_half_even_range [of x] round_half_even_range [of y] by linarith
qed

lemma round_half_even_minus: "round_half_even (- x) = - round_half_even x"
proof (cases "x = of_int \<lfloor>x\<rfloor>")
  case True
  then obtain n where "x = of_int n" ..
  then show ?thesis
    by (simp add: round_half_even_of_int flip: of_int_minus)
next
  case False
  then have "of_int \<lfloor>x\<rfloor> < x"
    using of_int_floor_le [of x] by linarith
  moreover have "x < of_int \<lfloor>x\<rfloor> + 1" by linarith
  ultimately have f: "\<lfloor>- x\<rfloor> = - \<lfloor>x\<rfloor> - 1"
    by (intro floor_unique) simp_all
  define r where "r = x - of_int \<lfloor>x\<rfloor>"
  have r': "- x - of_int (- \<lfloor>x\<rfloor> - 1) = 1 - r"
    by (simp add: r_def)
  have lhs: "round_half_even (- x) =
      (if 1 - r < 1 / 2 then - \<lfloor>x\<rfloor> - 1 else if 1 / 2 < 1 - r then - \<lfloor>x\<rfloor>
       else if even (- \<lfloor>x\<rfloor> - 1) then - \<lfloor>x\<rfloor> - 1 else - \<lfloor>x\<rfloor>)"
    unfolding round_half_even_def Let_def f r' by simp
  have rhs: "round_half_even x =
      (if r < 1 / 2 then \<lfloor>x\<rfloor> else if 1 / 2 < r then \<lfloor>x\<rfloor> + 1
       else if even \<lfloor>x\<rfloor> then \<lfloor>x\<rfloor> else \<lfloor>x\<rfloor> + 1)"
    unfolding round_half_even_def Let_def r_def by simp
  consider "r < 1 / 2" | "1 / 2 < r" | "r = 1 / 2" by linarith
  then show ?thesis
  proof cases
    case 1
    then show ?thesis unfolding lhs rhs by simp
  next
    case 2
    then show ?thesis unfolding lhs rhs by simp
  next
    case 3
    then show ?thesis unfolding lhs rhs by simp
  qed
qed

lemma round_half_even_error: "\<bar>of_int (round_half_even x) - x\<bar> \<le> 1 / 2"
proof -
  define r where "r = x - of_int \<lfloor>x\<rfloor>"
  have r: "0 \<le> r" "r < 1" unfolding r_def by linarith+
  have x: "x = of_int \<lfloor>x\<rfloor> + r" by (simp add: r_def)
  have rhs: "round_half_even x =
      (if r < 1 / 2 then \<lfloor>x\<rfloor> else if 1 / 2 < r then \<lfloor>x\<rfloor> + 1
       else if even \<lfloor>x\<rfloor> then \<lfloor>x\<rfloor> else \<lfloor>x\<rfloor> + 1)"
    unfolding round_half_even_def Let_def r_def by simp
  consider "r < 1 / 2" | "1 / 2 < r" | "r = 1 / 2" by linarith
  then show ?thesis
  proof cases
    case 1
    then have "of_int (round_half_even x) - x = - r" unfolding rhs by (simp add: r_def)
    then show ?thesis using r 1 by simp
  next
    case 2
    then have "of_int (round_half_even x) - x = 1 - r" unfolding rhs by (simp add: r_def)
    then show ?thesis using r 2 by simp
  next
    case 3
    then have "of_int (round_half_even x) - x = - r \<or> of_int (round_half_even x) - x = 1 - r"
      unfolding rhs by (simp add: r_def)
    then show ?thesis using 3 by auto
  qed
qed

lemma two_powi_less_imp_less:
  assumes "(2::rat) powi a < 2 powi b"
  shows "a < b"
proof (rule ccontr)
  assume "\<not> a < b"
  then have "(2::rat) powi b \<le> 2 powi a"
    by (intro power_int_increasing) simp_all
  with assms show False by simp
qed

lemma float_exponent_minus: "float_exponent (- x) = float_exponent x"
  by (simp add: float_exponent_def)

lemma fl_minus: "fl (- x) = - fl x"
  by (simp add: fl_def float_exponent_minus round_half_even_minus Let_def)

lemma float_exponent_mono:
  assumes "0 < x" "x \<le> y"
  shows "float_exponent x \<le> float_exponent y"
proof -
  have "2 powi (float_exponent x) \<le> x" "y < 2 powi (float_exponent y + 1)"
    using float_exponent_bounds [of x] float_exponent_bounds [of y] assms by simp_all
  then have "(2::rat) powi (float_exponent x) < 2 powi (float_exponent y + 1)"
    using assms by linarith
  then show ?thesis using two_powi_less_imp_less by fastforce
qed

lemma fl_pos_range:
  assumes "0 < x"
  shows "2 powi (float_exponent x) \<le> fl x \<and> fl x \<le> 2 powi (float_exponent x + 1)"
proof -
  define e where "e = float_exponent x"
  define u :: rat where "u = 2 powi (e - 52)"
  have u: "0 < u" by (simp add: u_def)
  have fl: "fl x = of_int (round_half_even (x / u)) * u"
    using assms by (simp add: fl_def e_def u_def Let_def)
  have b: "2 powi e \<le> x" "x < 2 powi (e + 1)"
    using float_exponent_bounds [of x] assms by (simp_all add: e_def)
  have lo: "2 powi e = of_int (2 ^ 52) * u" and hi: "2 powi (e + 1) = of_int (2 ^ 53) * u"
    by (simp_all add: u_def power_int_diff power_int_add)
  have "of_int (2 ^ 52) \<le> x / u" "x / u \<le> of_int (2 ^ 53)"
    using b u unfolding lo hi by (simp_all add: pos_le_divide_eq pos_divide_le_eq)
  then have "2 ^ 52 \<le> round_half_even (x / u)" "round_half_even (x / u) \<le> 2 ^ 53"
    using round_half_even_mono [of "of_int (2 ^ 52)" "x / u"]
      round_half_even_mono [of "x / u" "of_int (2 ^ 53)"]
    unfolding round_half_even_of_int by simp_all
  then have "(of_int (2 ^ 52) :: rat) \<le> of_int (round_half_even (x / u))"
    "(of_int (round_half_even (x / u)) :: rat) \<le> of_int (2 ^ 53)"
    unfolding of_int_le_iff by simp_all
  then show ?thesis
    using u unfolding fl lo hi e_def [symmetric] by (simp_all add: mult_right_mono)
qed

lemma fl_zero: "fl 0 = 0"
  by (simp add: fl_def)

lemma fl_pos: "0 < x \<Longrightarrow> 0 < fl x"
  using fl_pos_range [of x] zero_less_power_int [of "2::rat" "float_exponent x"]
  by linarith

lemma fl_mono_pos:
  assumes "0 < x" "x \<le> y"
  shows "fl x \<le> fl y"
proof (cases "float_exponent x = float_exponent y")
  case True
  define u :: rat where "u = 2 powi (float_exponent y - 52)"
  have u: "0 < u" by (simp add: u_def)
  have "x / u \<le> y / u" using assms u by (simp add: divide_right_mono)
  then have "(of_int (round_half_even (x / u)) :: rat) \<le> of_int (round_half_even (y / u))"
    unfolding of_int_le_iff by (rule round_half_even_mono)
  then have "of_int (round_half_even (x / u)) * u \<le> of_int (round_half_even (y / u)) * u"
    using u by (simp add: mult_right_mono)
  then show ?thesis
    using assms by (simp add: fl_def True u_def Let_def)
next
  case False
  then have "float_exponent x + 1 \<le> float_exponent y"
    using float_exponent_mono [OF assms] by linarith
  then have "(2::rat) powi (float_exponent x + 1) \<le> 2 powi (float_exponent y)"
    by (intro power_int_increasing) simp_all
  then show ?thesis
    using fl_pos_range [of x] fl_pos_range [of y] assms by linarith
qed

lemma fl_mono:
  assumes "x \<le> y"
  shows "fl x \<le> fl y"
proof -
  consider "0 < x" | "x \<le> 0" "0 \<le> y" | "y < 0" using assms by linarith
  then show ?thesis
  proof cases
    case 1
    then show ?thesis using assms by (rule fl_mono_pos)
  next
    case 2
    have "fl x \<le> 0"
    proof (cases "x = 0")
      case False
      then have "0 < fl (- x)" using 2 by (intro fl_pos) simp
      then show ?thesis by (simp add: fl_minus)
    qed (simp add: fl_zero)
    moreover have "0 \<le> fl y"
    proof (cases "y = 0")
      case False
      then have "0 < fl y" using 2 by (intro fl_pos) simp
      then show ?thesis by simp
    qed (simp add: fl_zero)
    ultimately show ?thesis by simp
  next
    case 3
    then have "fl (- y) \<le> fl (- x)" using assms by (intro fl_mono_pos) simp_all
    then show ?thesis by (simp add: fl_minus)
  qed
qed

lemma fl_exact:
  assumes "\<bar>n\<bar> < 2 ^ 53"
  shows "fl (of_int n * 2 powi j) = of_int n * 2 powi j"
proof (cases "n = 0")
  case True
  then show ?thesis by (simp add: fl_zero)
next
  case False
  define x :: rat where "x = of_int n * 2 powi j"
  define e where "e = float_exponent x"
  have x0: "x \<noteq> 0" using False by (simp add: x_def)
  have ax: "\<bar>x\<bar> = of_int \<bar>n\<bar> * 2 powi j" by (simp add: x_def abs_mult)
  have "(of_int \<bar>n\<bar> :: rat) < of_int (2 ^ 53)" using assms unfolding of_int_less_iff .
  then have "\<bar>x\<bar> < 2 powi 53 * 2 powi j" unfolding ax by (simp add: mult_strict_right_mono)
  then have "2 powi e < (2::rat) powi (53 + j)"
    using float_exponent_bounds [OF x0] by (simp add: e_def power_int_add)
  then have ej: "e < 53 + j" by (rule two_powi_less_imp_less)
  define k where "k = nat (j - (e - 52))"
  have k: "j = (e - 52) + int k" using ej by (simp add: k_def)
  have "x / 2 powi (e - 52) = of_int n * 2 ^ k"
    unfolding x_def k by (simp add: power_int_add)
  also have "\<dots> = of_int (n * 2 ^ k)" by simp
  finally have "round_half_even (x / 2 powi (e - 52)) = n * 2 ^ k"
    by (simp only: round_half_even_of_int)
  then have "fl x = of_int (n * 2 ^ k) * 2 powi (e - 52)"
    using x0 by (simp add: fl_def Let_def e_def)
  also have "\<dots> = x"
    unfolding x_def k by (simp add: power_int_add)
  finally show ?thesis by (simp add: x_def)
qed

lemma fl_of_int:
  assumes "\<bar>n\<bar> < 2 ^ 53"
  shows "fl (of_int n) = of_int n"
  using fl_exact [OF assms, of 0] by simp

lemma fl_error:
  assumes "x \<noteq> 0"
  shows "\<bar>fl x - x\<bar> \<le> 2 powi (float_exponent x - 53)"
proof -
  define u :: rat where "u = 2 powi (float_exponent x - 52)"
  have u: "0 < u" by (simp add: u_def)
  have "fl x = of_int (round_half_even (x / u)) * u"
    using assms by (simp add: fl_def Let_def u_def)
  then have "fl x - x = (of_int (round_half_even (x / u)) - x / u) * u"
    using u by (simp add: left_diff_distrib)
  then have "\<bar>fl x - x\<bar> = \<bar>of_int (round_half_even (x / u)) - x / u\<bar> * u"
    using u by (simp add: abs_mult)
  also have "\<dots> \<le> 1 / 2 * u"
    using round_half_even_error [of "x / u"] u by (intro mult_right_mono) simp_all
  also have "\<dots> = 2 powi (float_exponent x - 53)"
    by (simp add: u_def power_int_diff)
  finally show ?thesis .
qed


section \<open>Truncation and the float quotient\<close>

lemma trunc_toward_zero_mono:
  assumes "x \<le> y"
  shows "trunc_toward_zero x \<le> trunc_toward_zero y"
proof -
  consider "0 \<le> x" | "y < 0" | "x < 0" "0 \<le> y" using assms by linarith
  then show ?thesis
  proof cases
    case 1
    then show ?thesis using assms by (simp add: trunc_toward_zero_def floor_mono)
  next
    case 2
    then show ?thesis using assms by (simp add: trunc_toward_zero_def ceiling_mono)
  next
    case 3
    then have "\<lceil>x\<rceil> \<le> 0" "0 \<le> \<lfloor>y\<rfloor>" by (simp_all add: ceiling_le_iff)
    moreover have "trunc_toward_zero x = \<lceil>x\<rceil>" "trunc_toward_zero y = \<lfloor>y\<rfloor>"
      using 3 by (simp_all add: trunc_toward_zero_def)
    ultimately show ?thesis by linarith
  qed
qed

lemma trunc_toward_zero_of_int: "trunc_toward_zero (of_int n) = n"
  by (simp add: trunc_toward_zero_def)

lemma py_int_mono: "x \<le> y \<Longrightarrow> py_int x \<le> py_int y"
  by (simp add: py_int_def trunc_toward_zero_mono)

lemma py_int_of_int: "py_int (of_int n) = n"
  by (simp add: py_int_def trunc_toward_zero_of_int)

lemma py_float_small: "\<bar>n\<bar> \<le> 255 \<Longrightarrow> py_float n = of_int n"
  unfolding py_float_def by (rule fl_of_int) simp

text \<open>The float quotient of a sum of \<open>b\<close> channel values by \<open>b\<close> truncates to the integer quotient.\<close>

lemma truncated_float_quotient:
  assumes a: "0 \<le> a" "a \<le> 255 * b" and b: "0 < b" "b \<le> 2 ^ 45"
  shows "py_int (fl (of_int a / of_int b)) = a div b"
proof -
  define k where "k = a div b"
  define q :: rat where "q = of_int a / of_int b"
  have k0: "0 \<le> k" using a b by (simp add: k_def pos_imp_zdiv_nonneg_iff)
  have "a div b \<le> (255 * b) div b" using a b by (intro zdiv_mono1) simp_all
  then have k255: "k \<le> 255" using b by (simp add: k_def)
  have bq: "(0::rat) < of_int b" using b by simp
  have ak: "a = k * b + a mod b" by (simp add: k_def)
  have m: "0 \<le> a mod b" "a mod b \<le> b - 1" using b by simp_all
  have qk: "q = of_int k + of_int (a mod b) / of_int b"
    unfolding q_def using bq by (subst ak) (simp add: add_divide_distrib)
  have lo: "of_int k \<le> q"
    unfolding qk using m bq by simp
  have "(of_int (a mod b) :: rat) \<le> of_int (b - 1)"
    using m unfolding of_int_le_iff by simp
  then have "of_int (a mod b) / (of_int b :: rat) \<le> of_int (b - 1) / of_int b"
    using bq by (intro divide_right_mono) simp_all
  also have "\<dots> = 1 - 1 / of_int b" using bq by (simp add: diff_divide_distrib)
  also have "\<dots> \<le> 1 - 1 / 2 ^ 45"
  proof -
    have "(of_int b :: rat) \<le> of_int (2 ^ 45)" using b unfolding of_int_le_iff by simp
    then have "1 / (2 ^ 45 :: rat) \<le> 1 / of_int b" using bq by (simp add: frac_le)
    then show ?thesis by simp
  qed
  finally have hi: "q \<le> of_int k + 1 - 1 / 2 ^ 45" unfolding qk by simp
  define d :: rat where "d = of_int ((k + 1) * 2 ^ 45 - 1) * 2 powi (- 45)"
  have d: "d = of_int k + 1 - 1 / 2 ^ 45"
    by (simp add: d_def power_int_minus field_simps)
  have "\<bar>(k + 1) * 2 ^ 45 - 1\<bar> < 2 ^ 53" using k0 k255 by simp
  then have fd: "fl d = d" unfolding d_def by (rule fl_exact)
  have fk: "fl (of_int k) = of_int k" using k0 k255 by (intro fl_of_int) simp
  have "of_int k \<le> fl q" using fl_mono [OF lo] by (simp add: fk)
  moreover have "fl q \<le> d"
  proof -
    have "q \<le> d" using hi unfolding d .
    then have "fl q \<le> fl d" by (rule fl_mono)
    then show ?thesis unfolding fd .
  qed
  ultimately have "of_int k \<le> fl q" "fl q < of_int k + 1" by (simp_all add: d)
  then have "\<lfloor>fl q\<rfloor> = k" by (intro floor_unique) simp_all
  moreover have "0 \<le> fl q" using \<open>of_int k \<le> fl q\<close> k0 by (meson of_int_0_le_iff order_trans)
  ultimately show ?thesis by (simp add: py_int_def trunc_toward_zero_def q_def k_def)
qed


section \<open>The read and the average\<close>

lemma compute_average_nonempty:
  assumes "leds \<noteq> []"
  shows "compute_average leds =
    Inr (py_int (fl (of_int (sum_list (map led_r leds)) / of_nat (length leds))),
         py_int (fl (of_int (sum_list (map led_g leds)) / of_nat (length leds))),
         py_int (fl (of_int (sum_list (map led_b leds)) / of_nat (length leds))))"
  using assms by (simp add: compute_average_def py_truediv_def Let_def)

lemma compute_average_no_exception: "leds \<noteq> [] \<Longrightarrow> \<exists>avg. compute_average leds = Inr avg"
  by (simp add: compute_average_nonempty)

lemma raised_not_ZeroDivisionError: "raised s \<noteq> ZeroDivisionError"
  by (cases s) simp_all

lemma find_device_not_zde: "find_device env did tr = (Inl e, tr') \<Longrightarrow> e \<noteq> ZeroDivisionError"
  by (auto simp add: find_device_def perform_def Let_def raised_not_ZeroDivisionError
      split: option.splits)

lemma find_all_led_ids_not_zde:
  "find_all_led_ids env dev tr = (Inl e, tr') \<Longrightarrow> e \<noteq> ZeroDivisionError"
  by (auto simp add: find_all_led_ids_def perform_def Let_def raised_not_ZeroDivisionError
      split: option.splits if_splits)

lemma connect_and_discover_not_zde:
  "connect_and_discover env st tr = (Some e, st', tr') \<Longrightarrow> e \<noteq> ZeroDivisionError"
  by (auto simp add: connect_and_discover_def perform_def Let_def raised_not_ZeroDivisionError
      split: option.splits prod.splits sum.splits if_splits
      dest: find_device_not_zde find_all_led_ids_not_zde)

lemma reconnect_not_zde:
  "reconnect env st tr = (Some e, st', tr') \<Longrightarrow> e \<noteq> ZeroDivisionError"
  by (auto simp add: reconnect_def perform_def Let_def raised_not_ZeroDivisionError
      split: option.splits prod.splits if_splits dest: connect_and_discover_not_zde)

lemma reconnect_return_None_not_zde:
  "reconnect_return_None env st tr = (Inl e, st', tr') \<Longrightarrow> e \<noteq> ZeroDivisionError"
  by (auto simp add: reconnect_return_None_def split: option.splits prod.splits
      dest: reconnect_not_zde)

lemma get_average_color_try_not_zde:
  "get_average_color_try env st d tr = (Inl e, st', tr') \<Longrightarrow> e \<noteq> ZeroDivisionError"
  by (auto simp add: get_average_color_try_def perform_def Let_def raised_not_ZeroDivisionError
      compute_average_nonempty
      split: option.splits prod.splits if_splits dest: reconnect_return_None_not_zde)


lemma get_average_color_read:
  assumes "device st = Some d" "led_ids st \<noteq> []" "sample_reads env st d tr leds" "leds \<noteq> []"
  shows "\<exists>avg. compute_average leds = Inr avg
    \<and> get_average_color env st tr =
        (if Some (rgb_tuples leds) = last_colors st then (Inr None, st, after_read st d tr)
         else (Inr (Some avg), st\<lparr>last_colors := Some (rgb_tuples leds)\<rparr>,
               logger INFO ''New average color'' (after_read st d tr)))"
proof -
  obtain avg where avg: "compute_average leds = Inr avg"
    using compute_average_no_exception [OF assms(4)] by blast
  have "get_average_color_try env st d tr =
        (if Some (rgb_tuples leds) = last_colors st then (Inr None, st, after_read st d tr)
         else (Inr (Some avg), st\<lparr>last_colors := Some (rgb_tuples leds)\<rparr>,
               logger INFO ''New average color'' (after_read st d tr)))"
    using assms(3,4) avg
    by (simp add: get_average_color_try_def sample_reads_def perform_def after_read_def Let_def)
  then show ?thesis
    using assms(1,2) avg by (simp add: get_average_color_def)
qed

lemma sum_list_channel_bounds:
  assumes "list_all (\<lambda>x. channel_ok (f x)) xs"
  shows "0 \<le> sum_list (map f xs) \<and> sum_list (map f xs) \<le> 255 * int (length xs)"
  using assms by (induction xs) (auto simp add: channel_ok_def)

lemma float_mean_eq_truncated_mean:
  assumes "list_all (\<lambda>x. channel_ok (f x)) xs" "xs \<noteq> []" "length xs \<le> 2 ^ 45"
  shows "py_int (fl (of_int (sum_list (map f xs)) / of_nat (length xs))) = truncated_mean (map f xs)"
proof -
  let ?a = "sum_list (map f xs)" and ?b = "int (length xs)"
  have b: "0 < ?b" "?b \<le> 2 ^ 45" using assms(2,3) by simp_all
  have a: "0 \<le> ?a" "?a \<le> 255 * ?b" using sum_list_channel_bounds [OF assms(1)] by simp_all
  have "py_int (fl (of_int ?a / of_int ?b)) = ?a div ?b"
    using a b by (rule truncated_float_quotient)
  moreover have "0 \<le> (of_int ?a / of_int ?b :: rat)" using a b by simp
  then have "truncated_mean (map f xs) = \<lfloor>of_int ?a / of_int ?b :: rat\<rfloor>"
    unfolding truncated_mean_def trunc_toward_zero_def by simp
  then have "truncated_mean (map f xs) = ?a div ?b"
    by (simp only: floor_divide_of_int_eq)
  ultimately show ?thesis by simp
qed

lemma compute_average_eq_spec:
  assumes "leds_ok leds" "leds \<noteq> []" "length leds \<le> 2 ^ 45"
  shows "compute_average leds = Inr (spec_aggregate leds)"
proof -
  have "list_all (\<lambda>x. channel_ok (led_r x)) leds" "list_all (\<lambda>x. channel_ok (led_g x)) leds"
    "list_all (\<lambda>x. channel_ok (led_b x)) leds"
    using assms(1) by (simp_all add: leds_ok_def list_all_iff)
  then show ?thesis
    using assms(2,3)
    by (simp add: compute_average_nonempty spec_aggregate_def float_mean_eq_truncated_mean)
qed


lemma truncated_mean_div:
  assumes "0 \<le> sum_list xs"
  shows "truncated_mean xs = sum_list xs div int (length xs)"
proof -
  have "0 \<le> (of_int (sum_list xs) / of_int (int (length xs)) :: rat)" using assms by simp
  then have "truncated_mean xs = \<lfloor>of_int (sum_list xs) / of_int (int (length xs)) :: rat\<rfloor>"
    unfolding truncated_mean_def trunc_toward_zero_def by simp
  then show ?thesis by (simp only: floor_divide_of_int_eq)
qed

section \<open>Two concrete samples\<close>

lemma compute_average_red_green: "compute_average red_green = Inr (127, 127, 0)"
proof -
  have "compute_average red_green = Inr (spec_aggregate red_green)"
    by (rule compute_average_eq_spec) (simp_all add: red_green_def leds_ok_def channel_ok_def)
  then show ?thesis
    by (simp add: spec_aggregate_def truncated_mean_div red_green_def)
qed

lemma compute_average_green_red: "compute_average green_red = Inr (127, 127, 0)"
proof -
  have "compute_average green_red = Inr (spec_aggregate green_red)"
    by (rule compute_average_eq_spec) (simp_all add: green_red_def leds_ok_def channel_ok_def)
  then show ?thesis
    by (simp add: spec_aggregate_def truncated_mean_div green_red_def)
qed

lemma after_first_sample_eq:
  "after_first_sample =
     (Inr (Some (127, 127, 0)), reader\<lparr>last_colors := Some [(255, 0, 0), (0, 255, 0)]\<rparr>,
      [(Sdk_get_led_colors ''keyboard-1'' (led_request reader), None),
       (Log INFO ''New average color'', None)])"
  using get_average_color_read [of reader keyboard swapping_world "[]" red_green]
  by (simp add: after_first_sample_def compute_average_red_green)
     (simp add: reader_def keyboard_def swapping_world_def world_def sample_reads_def red_green_def
        rgb_tuples_def after_read_def logger_def)


section \<open>Interpolation and the fade loop\<close>

lemma fl_one: "fl 1 = 1"
  using fl_of_int [of 1] by simp

lemma fl_nonneg: "0 \<le> x \<Longrightarrow> 0 \<le> fl x"
  using fl_mono [of 0 x] by (simp add: fl_zero)

lemma fl_le_of_int:
  assumes "x \<le> of_int n" "\<bar>n\<bar> < 2 ^ 53"
  shows "fl x \<le> of_int n"
  using fl_mono [OF assms(1)] fl_of_int [OF assms(2)] by simp

lemma fl_ge_of_int:
  assumes "of_int n \<le> x" "\<bar>n\<bar> < 2 ^ 53"
  shows "of_int n \<le> fl x"
  using fl_mono [OF assms(1)] fl_of_int [OF assms(2)] by simp

lemma progress_at_range:
  assumes "step \<le> transition_steps st"
  shows "0 \<le> progress_at st step \<and> progress_at st step \<le> 1"
proof -
  let ?q = "of_int (int step) / of_int (int (transition_steps st)) :: rat"
  have "0 \<le> ?q" by simp
  moreover have "?q \<le> 1"
  proof (cases "transition_steps st = 0")
    case False
    then have "(0::rat) < of_int (int (transition_steps st))" by simp
    moreover have "(of_int (int step) :: rat) \<le> of_int (int (transition_steps st))"
      using assms by simp
    ultimately show ?thesis by (simp only: pos_divide_le_eq mult_1)
  qed simp
  ultimately have "0 \<le> fl ?q" "fl ?q \<le> fl 1" using fl_nonneg fl_mono by blast+
  then show ?thesis by (simp add: progress_at_def fl_one)
qed

lemma progress_at_mono:
  assumes "i \<le> j"
  shows "progress_at st i \<le> progress_at st j"
  unfolding progress_at_def using assms by (intro fl_mono divide_right_mono) simp_all

lemma progress_at_last:
  assumes "0 < transition_steps st"
  shows "progress_at st (transition_steps st) = 1"
  using assms by (simp add: progress_at_def fl_one)

lemma interpolate_channel_range:
  assumes "channel_ok s" "channel_ok e" "0 \<le> p" "p \<le> 1"
  shows "min s e \<le> interpolate_channel s e p \<and> interpolate_channel s e p \<le> max s e"
proof -
  define d where "d = e - s"
  have d: "\<bar>d\<bar> \<le> 255" and s: "\<bar>s\<bar> \<le> 255" and e: "\<bar>e\<bar> \<le> 255"
    using assms(1,2) by (auto simp add: channel_ok_def d_def)
  define y where "y = fl (of_int d * p)"
  have fs: "py_float s = of_int s" and fd: "py_float d = of_int d"
    using s d by (simp_all add: py_float_small)
  have i: "interpolate_channel s e p = py_int (fl (of_int s + y))"
    by (simp add: interpolate_channel_def fs fd [unfolded d_def] y_def d_def)
  show ?thesis
  proof (cases "0 \<le> d")
    case True
    have "0 \<le> of_int d * p" "of_int d * p \<le> of_int d"
      using True assms(3,4) by (simp_all add: mult_left_le)
    then have "0 \<le> y" "y \<le> of_int d"
      unfolding y_def using d by (auto intro: fl_nonneg fl_le_of_int)
    then have "of_int s \<le> of_int s + y" "of_int s + y \<le> of_int e" by (simp_all add: d_def)
    then have "of_int s \<le> fl (of_int s + y)" "fl (of_int s + y) \<le> of_int e"
      using s e by (auto intro: fl_ge_of_int fl_le_of_int)
    then have "s \<le> py_int (fl (of_int s + y))" "py_int (fl (of_int s + y)) \<le> e"
      using py_int_mono [of "of_int s" "fl (of_int s + y)"]
        py_int_mono [of "fl (of_int s + y)" "of_int e"] by (simp_all add: py_int_of_int)
    then show ?thesis using True by (simp add: i d_def)
  next
    case False
    have "of_int d \<le> of_int d * p" "of_int d * p \<le> 0"
      using False assms(3,4) by (simp_all add: mult_le_0_iff mult_left_le)
    then have "of_int d \<le> y" "y \<le> 0"
      unfolding y_def using d fl_mono [of "of_int d * p" 0]
      by (auto intro: fl_ge_of_int simp add: fl_zero)
    then have "of_int e \<le> of_int s + y" "of_int s + y \<le> of_int s" by (simp_all add: d_def)
    then have "of_int e \<le> fl (of_int s + y)" "fl (of_int s + y) \<le> of_int s"
      using s e by (auto intro: fl_ge_of_int fl_le_of_int)
    then have "e \<le> py_int (fl (of_int s + y))" "py_int (fl (of_int s + y)) \<le> s"
      using py_int_mono [of "of_int e" "fl (of_int s + y)"]
        py_int_mono [of "fl (of_int s + y)" "of_int s"] by (simp_all add: py_int_of_int)
    then show ?thesis using False by (simp add: i d_def)
  qed
qed

lemma interpolate_channel_mono:
  assumes "s \<le> e" "p \<le> p'"
  shows "interpolate_channel s e p \<le> interpolate_channel s e p'"
proof -
  have "0 \<le> py_float (e - s)" using assms(1) by (simp add: py_float_def fl_nonneg)
  then have "py_float (e - s) * p \<le> py_float (e - s) * p'"
    using assms(2) by (rule mult_left_mono [rotated])
  then have "py_float s + fl (py_float (e - s) * p) \<le> py_float s + fl (py_float (e - s) * p')"
    by (simp add: fl_mono)
  then show ?thesis
    unfolding interpolate_channel_def by (intro py_int_mono fl_mono)
qed

lemma interpolate_channel_antimono:
  assumes "e \<le> s" "p \<le> p'"
  shows "interpolate_channel s e p' \<le> interpolate_channel s e p"
proof -
  have "fl (of_int (e - s)) \<le> fl 0" using assms(1) by (intro fl_mono) simp
  then have "py_float (e - s) \<le> 0" by (simp add: py_float_def fl_zero)
  then have "py_float (e - s) * p' \<le> py_float (e - s) * p"
    using assms(2) by (rule mult_left_mono_neg [rotated])
  then have "py_float s + fl (py_float (e - s) * p') \<le> py_float s + fl (py_float (e - s) * p)"
    by (simp add: fl_mono)
  then show ?thesis
    unfolding interpolate_channel_def by (intro py_int_mono fl_mono)
qed

lemma interpolate_channel_one:
  assumes "channel_ok s" "channel_ok e"
  shows "interpolate_channel s e 1 = e"
proof -
  have d: "\<bar>e - s\<bar> \<le> 255" and s: "\<bar>s\<bar> \<le> 255" and e: "\<bar>e\<bar> < 2 ^ 53"
    using assms by (auto simp add: channel_ok_def)
  have "fl (of_int (e - s)) = of_int (e - s)" using d by (intro fl_of_int) simp
  moreover have "fl (of_int e) = of_int e" using e by (rule fl_of_int)
  ultimately show ?thesis
    using fl_of_int [of s] s
    by (simp add: interpolate_channel_def py_float_def py_int_of_int)
qed

lemma writes_Nil: "writes [] = []"
  by (simp add: writes_def)

lemma writes_append: "writes (xs @ ys) = writes xs @ writes ys"
  by (simp add: writes_def)

lemma writes_Cons: "writes (x # xs) = write_of x @ writes xs"
  by (simp add: writes_def)

lemma writes_logger: "writes (logger lvl msg tr) = writes tr"
  by (simp add: logger_def writes_def)

lemma py_truediv_step:
  assumes "0 < transition_steps st"
  shows "py_truediv (int step) (int (transition_steps st)) = Inr (progress_at st step)"
  using assms by (simp add: py_truediv_def progress_at_def)

lemma fade_loop_result:
  assumes "0 < transition_steps st"
    and "fade_loop env st start target steps tr = (res, st', tr')"
  shows "\<exists>evs. tr' = tr @ evs
    \<and> map fst (writes evs) =
        take (length (writes evs))
          (map (\<lambda>step. interpolate_color start target (progress_at st step)) steps)
    \<and> list_all (\<lambda>w. snd w = None) (butlast (writes evs))
    \<and> (res = Inr True \<longrightarrow>
          st' = st \<and> length (writes evs) = length steps \<and> list_all (\<lambda>e. snd e = None) evs)
    \<and> (res = Inr False \<longrightarrow> st' = st\<lparr>bulb := None\<rparr> \<and> \<not> list_all (\<lambda>e. snd e = None) evs)
    \<and> (\<forall>e. res = Inl e \<longrightarrow>
          st' = st \<and> e = KeyboardInterrupt \<and> \<not> list_all (\<lambda>e. snd e = None) evs)
    \<and> (\<forall>m. writes evs \<noteq> [] \<and> snd (last (writes evs)) = Some (Failed m) \<longrightarrow> res = Inr False)"
  using assms(2)
proof (induction steps arbitrary: tr)
  case Nil
  then show ?case by (auto simp add: writes_Nil)
next
  case (Cons step steps)
  obtain cr cg cb where c: "interpolate_color start target (progress_at st step) = (cr, cg, cb)"
    by (cases "interpolate_color start target (progress_at st step)")
  let ?w = "(Bulb_setRgb cr cg cb, outcome env tr (Bulb_setRgb cr cg cb))"
  let ?tr1 = "tr @ [?w]"
  let ?sl = "(Time_sleep (transition_delay st), outcome env ?tr1 (Time_sleep (transition_delay st)))"
  show ?case
  proof (cases "outcome env tr (Bulb_setRgb cr cg cb)")
    case (Some sg)
    show ?thesis
    proof (cases sg)
      case Interrupted
      show ?thesis
        apply (rule exI [of _ "[?w]"])
        using Cons.prems c Some Interrupted
        by (auto simp add: py_truediv_step [OF assms(1)] perform_def Let_def writes_Cons
            writes_Nil)
    next
      case (Failed m)
      show ?thesis
        apply (rule exI [of _ "[?w, (Log WARNING ''Error during color transition'', None)]"])
        using Cons.prems c Some Failed
        by (auto simp add: py_truediv_step [OF assms(1)] perform_def Let_def writes_Cons
            writes_Nil logger_def)
    qed
  next
    case w: None
    show ?thesis
    proof (cases "outcome env ?tr1 (Time_sleep (transition_delay st))")
      case (Some sg)
      show ?thesis
      proof (cases sg)
        case Interrupted
        show ?thesis
          apply (rule exI [of _ "[?w, ?sl]"])
          using Cons.prems c w Some Interrupted
          by (auto simp add: py_truediv_step [OF assms(1)] perform_def Let_def writes_Cons
              writes_Nil)
      next
        case (Failed m)
        show ?thesis
          apply (rule exI [of _ "[?w, ?sl, (Log WARNING ''Error during color transition'', None)]"])
          using Cons.prems c w Some Failed
          by (auto simp add: py_truediv_step [OF assms(1)] perform_def Let_def writes_Cons
              writes_Nil logger_def)
      qed
    next
      case None
      then have "fade_loop env st start target steps (tr @ [?w, ?sl]) = (res, st', tr')"
        using Cons.prems c w
        by (simp add: py_truediv_step [OF assms(1)] perform_def Let_def)
      from Cons.IH [OF this] obtain evs where evs: "tr' = (tr @ [?w, ?sl]) @ evs"
        and ih: "map fst (writes evs) =
        take (length (writes evs))
          (map (\<lambda>step. interpolate_color start target (progress_at st step)) steps)"
        "list_all (\<lambda>w. snd w = None) (butlast (writes evs))"
        "res = Inr True \<longrightarrow>
          st' = st \<and> length (writes evs) = length steps \<and> list_all (\<lambda>e. snd e = None) evs"
        "res = Inr False \<longrightarrow> st' = st\<lparr>bulb := None\<rparr> \<and> \<not> list_all (\<lambda>e. snd e = None) evs"
        "\<forall>e. res = Inl e \<longrightarrow>
          st' = st \<and> e = KeyboardInterrupt \<and> \<not> list_all (\<lambda>e. snd e = None) evs"
        "\<forall>m. writes evs \<noteq> [] \<and> snd (last (writes evs)) = Some (Failed m) \<longrightarrow> res = Inr False"
        by blast
      have ws: "writes ([?w, ?sl] @ evs) = ((cr, cg, cb), None) # writes evs"
        by (simp add: writes_Cons w)
      show ?thesis
        apply (rule exI [of _ "[?w, ?sl] @ evs"])
        unfolding ws using evs ih c w None
        by auto
    qed
  qed
qed

section \<open>\<^verbatim>\<open>set_color\<close>\<close>

lemma connect_result:
  assumes "connect env st tr = (res, st', tr')"
  shows "\<exists>evs. tr' = tr @ evs \<and> writes evs = []
    \<and> last_color st' = last_color st \<and> transition_steps st' = transition_steps st
    \<and> transition_delay st' = transition_delay st \<and> ip_address st' = ip_address st
    \<and> (res = None \<or> res = Some KeyboardInterrupt)
    \<and> (res = None \<and> bulb st' \<noteq> None \<longleftrightarrow> list_all (\<lambda>e. snd e = None) evs)"
proof -
  let ?a = "(WifiLedBulb (ip_address st), outcome env tr (WifiLedBulb (ip_address st)))"
  let ?b = "(Bulb_connect, outcome env (tr @ [?a]) Bulb_connect)"
  show ?thesis
  proof (cases "outcome env tr (WifiLedBulb (ip_address st))")
    case (Some sg)
    show ?thesis
    proof (cases sg)
      case Interrupted
      show ?thesis
        apply (rule exI [of _ "[?a]"])
        using assms Some Interrupted
        by (auto simp add: connect_def perform_def Let_def writes_Cons writes_Nil)
    next
      case (Failed m)
      show ?thesis
        apply (rule exI [of _ "[?a, (Log ERROR ''Error connecting to Magic Home'', None)]"])
        using assms Some Failed
        by (auto simp add: connect_def perform_def Let_def writes_Cons writes_Nil logger_def)
    qed
  next
    case a: None
    show ?thesis
    proof (cases "outcome env (tr @ [?a]) Bulb_connect")
      case (Some sg)
      show ?thesis
      proof (cases sg)
        case Interrupted
        show ?thesis
          apply (rule exI [of _ "[?a, ?b]"])
          using assms a Some Interrupted
          by (auto simp add: connect_def perform_def Let_def writes_Cons writes_Nil)
      next
        case (Failed m)
        show ?thesis
          apply (rule exI [of _ "[?a, ?b, (Log ERROR ''Error connecting to Magic Home'', None)]"])
          using assms a Some Failed
          by (auto simp add: connect_def perform_def Let_def writes_Cons writes_Nil logger_def)
      qed
    next
      case None
      show ?thesis
        apply (rule exI [of _ "[?a, ?b, (Log INFO ''Magic Home controller connected'', None)]"])
        using assms a None
        by (auto simp add: connect_def perform_def Let_def writes_Cons writes_Nil logger_def)
    qed
  qed
qed

lemma set_color_connected_fade:
  assumes "last_color st = Some start" and "0 < transition_steps st"
    and "set_color_connected env st target tr = (res, st', tr')"
  shows "\<exists>evs. tr' = tr @ evs
    \<and> map fst (writes evs) = take (length (writes evs)) (fade_colors st start target)
    \<and> list_all (\<lambda>w. snd w = None) (butlast (writes evs))
    \<and> (if list_all (\<lambda>e. snd e = None) evs
        then res = None \<and> st' = st\<lparr>last_color := Some target\<rparr>
             \<and> length (writes evs) = transition_steps st
        else last_color st' = last_color st)
    \<and> (\<forall>m. writes evs \<noteq> [] \<and> snd (last (writes evs)) = Some (Failed m) \<longrightarrow>
          res = None \<and> st' = st\<lparr>bulb := None\<rparr>)"
proof -
  obtain r g b where t: "target = (r, g, b)" by (cases target)
  obtain fres fst' ftr where
    f: "fade_loop env st start target [1 ..< transition_steps st + 1] tr = (fres, fst', ftr)"
    by (cases "fade_loop env st start target [1 ..< transition_steps st + 1] tr")
  from fade_loop_result [OF assms(2) f] obtain evs where evs: "ftr = tr @ evs"
    and ih: "map fst (writes evs) =
        take (length (writes evs)) (fade_colors st start target)"
    "list_all (\<lambda>w. snd w = None) (butlast (writes evs))"
    "fres = Inr True \<longrightarrow>
       fst' = st \<and> length (writes evs) = length [1 ..< transition_steps st + 1]
       \<and> list_all (\<lambda>e. snd e = None) evs"
    "fres = Inr False \<longrightarrow> fst' = st\<lparr>bulb := None\<rparr> \<and> \<not> list_all (\<lambda>e. snd e = None) evs"
    "\<forall>e. fres = Inl e \<longrightarrow>
       fst' = st \<and> e = KeyboardInterrupt \<and> \<not> list_all (\<lambda>e. snd e = None) evs"
    "\<forall>m. writes evs \<noteq> [] \<and> snd (last (writes evs)) = Some (Failed m) \<longrightarrow> fres = Inr False"
    unfolding fade_colors_def by blast
  show ?thesis
  proof (cases fres)
    case (Inl e)
    show ?thesis
      apply (rule exI [of _ evs])
      using assms(1,3) f t evs ih Inl
      by (auto simp add: set_color_connected_def)
  next
    case (Inr ok)
    show ?thesis
    proof (cases ok)
      case True
      show ?thesis
        apply (rule exI [of _ "evs @ [(Log INFO ''Set new color'', None)]"])
        using assms(1,3) f t evs ih Inr True
        by (auto simp add: set_color_connected_def logger_def writes_append writes_Cons writes_Nil)
    next
      case False
      show ?thesis
        apply (rule exI [of _ evs])
        using assms(1,3) f t evs ih Inr False
        by (auto simp add: set_color_connected_def)
    qed
  qed
qed

lemma set_color_connected_first:
  assumes "last_color st = None"
    and "set_color_connected env st target tr = (res, st', tr')"
  shows "\<exists>evs s. tr' = tr @ evs \<and> writes evs = [(target, s)]
    \<and> (s = None \<longrightarrow> res = None \<and> st' = st\<lparr>last_color := Some target\<rparr>)
    \<and> (s \<noteq> None \<longrightarrow> last_color st' = None)"
proof -
  obtain r g b where t: "target = (r, g, b)" by (cases target)
  let ?w = "(Bulb_setRgb r g b, outcome env tr (Bulb_setRgb r g b))"
  show ?thesis
  proof (cases "outcome env tr (Bulb_setRgb r g b)")
    case None
    show ?thesis
      apply (rule exI [of _ "[?w, (Log INFO ''Set new color'', None)]"])
      apply (rule exI [of _ None])
      using assms t None
      by (auto simp add: set_color_connected_def perform_def Let_def writes_Cons writes_Nil
          logger_def)
  next
    case (Some sg)
    show ?thesis
    proof (cases sg)
      case Interrupted
      show ?thesis
        apply (rule exI [of _ "[?w]"])
        apply (rule exI [of _ "Some Interrupted"])
        using assms t Some Interrupted
        by (auto simp add: set_color_connected_def perform_def Let_def writes_Cons writes_Nil)
    next
      case (Failed m)
      show ?thesis
        apply (rule exI [of _ "[?w, (Log WARNING ''Error setting initial color'', None)]"])
        apply (rule exI [of _ "Some (Failed m)"])
        using assms t Some Failed
        by (auto simp add: set_color_connected_def perform_def Let_def writes_Cons writes_Nil
            logger_def)
    qed
  qed
qed

text \<open>
  \<^verbatim>\<open>set_color\<close> is \<^verbatim>\<open>set_color_connected\<close> after the events of the attempt to connect, if
  any, when a connection is at hand, and nothing but that attempt otherwise.
\<close>

lemma set_color_cases:
  assumes "set_color env st target tr = (res, st', tr')"
  obtains
    (connected) cst pre where "connection_available env st tr"
      and "set_color_connected env cst target (tr @ pre) = (res, st', tr')"
      and "writes pre = []" and "list_all (\<lambda>e. snd e = None) pre"
      and "last_color cst = last_color st" and "transition_steps cst = transition_steps st"
      and "transition_delay cst = transition_delay st" and "bulb cst \<noteq> None"
  | (unconnected) pre where "\<not> connection_available env st tr" and "tr' = tr @ pre"
      and "writes pre = []" and "last_color st' = last_color st"
      and "\<not> list_all (\<lambda>e. snd e = None) pre"
proof (cases "bulb st = None")
  case False
  then have "set_color env st target tr = set_color_connected env st target tr"
    unfolding set_color_def by (simp only: if_False)
  then have "set_color_connected env st target (tr @ []) = (res, st', tr')"
    using assms by simp
  then show ?thesis
    using False by (intro connected [of st "[]"]) (simp_all add: connection_available_def writes_Nil)
next
  case True
  obtain cres cst ctr where c: "connect env st tr = (cres, cst, ctr)"
    by (cases "connect env st tr")
  from connect_result [OF c] obtain pre where pre: "ctr = tr @ pre" "writes pre = []"
    "last_color cst = last_color st" "transition_steps cst = transition_steps st"
    "transition_delay cst = transition_delay st"
    "cres = None \<or> cres = Some KeyboardInterrupt"
    "cres = None \<and> bulb cst \<noteq> None \<longleftrightarrow> list_all (\<lambda>e. snd e = None) pre"
    by blast
  show ?thesis
  proof (cases "cres = None \<and> bulb cst \<noteq> None")
    case ok: True
    then show ?thesis
      using assms True c pre connected [of cst pre]
      by (auto simp add: set_color_def connection_available_def)
  next
    case bad: False
    then show ?thesis
      using assms True c pre unconnected [of pre]
      by (auto simp add: set_color_def connection_available_def)
  qed
qed

lemma failed_write_is_last:
  assumes "list_all (\<lambda>w. snd w = None) (butlast ws)"
    and "0 < k" and "k \<le> length ws" and "snd (ws ! (k - 1)) \<noteq> None"
  shows "k = length ws"
proof (rule ccontr)
  assume "k \<noteq> length ws"
  then have k: "k - 1 < length (butlast ws)" using assms(2,3) by simp
  then have "snd (butlast ws ! (k - 1)) = None"
    using assms(1) by (simp add: list_all_length)
  then show False using assms(4) k by (simp add: nth_butlast)
qed

lemma steps_ten: "[Suc 0 ..< 11] = [1, 2, 3, 4, 5, 6, 7, 8, 9, 10]"
  by code_simp

lemma broken_fade_eval:
  "\<exists>c1 c2 c3 tr'.
     broken_fade = (None, black_actuator\<lparr>bulb := None\<rparr>, tr')
     \<and> writes tr' = [(c1, None), (c2, None), (c3, Some (Failed ''timed out''))]"
  by (simp add: broken_fade_def set_color_def set_color_connected_def black_actuator_def
      fresh_actuator_def MagicHomeController_init_def py_truediv_def perform_def Let_def
      failing_world_def world_def logger_def writes_def steps_ten)


section \<open>The fade against the exact interpolation\<close>

lemma fl_error_below:
  assumes "\<bar>x\<bar> < 2 powi k"
  shows "\<bar>fl x - x\<bar> \<le> 2 powi (k - 54)"
proof (cases "x = 0")
  case True
  then show ?thesis by (simp add: fl_zero)
next
  case False
  have "2 powi (float_exponent x) < (2::rat) powi k"
    using float_exponent_bounds [OF False] assms by linarith
  then have "float_exponent x - 53 \<le> k - 54"
    using two_powi_less_imp_less [of "float_exponent x" k] by simp
  then have "(2::rat) powi (float_exponent x - 53) \<le> 2 powi (k - 54)"
    by (intro power_int_increasing) simp_all
  then show ?thesis using fl_error [OF False] by linarith
qed

text \<open>The float the program truncates is within \<open>2\<^sup>-\<^sup>4\<^sup>4\<close> of the exact interpolation.\<close>

lemma interpolation_error:
  assumes "channel_ok s" "channel_ok e" "0 < i" "i \<le> n"
  defines "q \<equiv> (of_nat i / of_nat n :: rat)"
  defines "v \<equiv> of_int s + (of_int e - of_int s) * q"
  defines "z \<equiv> fl (py_float s + fl (py_float (e - s) * fl q))"
  shows "\<bar>z - v\<bar> \<le> 1 / 2 ^ 44 \<and> 0 \<le> z \<and> 0 \<le> v"
proof -
  define d where "d = e - s"
  define p where "p = fl q"
  define y where "y = fl (of_int d * p)"
  have d: "\<bar>d\<bar> \<le> 255" and s: "\<bar>s\<bar> \<le> 255" "0 \<le> s" and e: "\<bar>e\<bar> \<le> 255" "0 \<le> e"
    using assms(1,2) by (auto simp add: channel_ok_def d_def)
  have fs: "py_float s = of_int s" and fd: "py_float (e - s) = of_int d"
    using s d by (simp_all add: py_float_small d_def)
  have z: "z = fl (of_int s + y)" by (simp add: z_def fs fd y_def p_def)
  have q: "0 \<le> q" "q \<le> 1" using assms(3,4) by (simp_all add: q_def)
  have p: "0 \<le> p" "p \<le> 1"
    using fl_nonneg [OF q(1)] fl_mono [OF q(2)] by (simp_all add: p_def fl_one)
  have e1: "\<bar>p - q\<bar> \<le> 2 powi (- 53)"
    using fl_error_below [of q 1] q by (simp add: p_def)
  have "\<bar>of_int d * p - of_int d * q\<bar> = \<bar>of_int d\<bar> * \<bar>p - q\<bar>"
    by (simp add: right_diff_distrib [symmetric] abs_mult)
  also have "\<dots> \<le> 255 * 2 powi (- 53)"
    using d e1 by (intro mult_mono) simp_all
  finally have e2: "\<bar>of_int d * p - of_int d * q\<bar> \<le> 255 * 2 powi (- 53)" .
  have "\<bar>of_int d * p\<bar> \<le> 255 * 1"
    unfolding abs_mult using d p by (intro mult_mono) simp_all
  then have "\<bar>of_int d * p\<bar> < 2 powi 8" by simp
  then have e3: "\<bar>y - of_int d * p\<bar> \<le> 2 powi (- 46)"
    using fl_error_below [of "of_int d * p" 8] by (simp add: y_def)
  have x2: "0 \<le> of_int s + y" "of_int s + y \<le> 255"
  proof -
    have "(0 \<le> y \<and> y \<le> of_int d) \<or> (of_int d \<le> y \<and> y \<le> 0)"
    proof (cases "0 \<le> d")
      case True
      have "0 \<le> of_int d * p" "of_int d * p \<le> of_int d"
        using True p by (simp_all add: mult_left_le)
      then have "0 \<le> y" "y \<le> of_int d"
        unfolding y_def using d by (auto intro: fl_nonneg fl_le_of_int)
      then show ?thesis by simp
    next
      case False
      have "of_int d \<le> of_int d * p" "of_int d * p \<le> 0"
        using False p by (simp_all add: mult_le_0_iff mult_left_le)
      then have "of_int d \<le> y" "y \<le> 0"
        unfolding y_def using d fl_mono [of "of_int d * p" 0]
        by (auto intro: fl_ge_of_int simp add: fl_zero)
      then show ?thesis by simp
    qed
    moreover have "(of_int s :: rat) + of_int d = of_int e" by (simp add: d_def)
    moreover have "(0::rat) \<le> of_int s" "(of_int s :: rat) \<le> 255"
      "(0::rat) \<le> of_int e" "(of_int e :: rat) \<le> 255"
      using s e by simp_all
    ultimately show "0 \<le> of_int s + y" "of_int s + y \<le> 255" by linarith+
  qed
  then have "\<bar>of_int s + y\<bar> < 2 powi 8" by simp
  then have e4: "\<bar>z - (of_int s + y)\<bar> \<le> 2 powi (- 46)"
    using fl_error_below [of "of_int s + y" 8] by (simp add: z)
  have z0: "0 \<le> z" unfolding z using x2(1) by (rule fl_nonneg)
  have vq: "v = of_int s * (1 - q) + of_int e * q" by (simp add: v_def algebra_simps)
  have v0: "0 \<le> v" unfolding vq using q s(2) e(2) by simp
  have "v = of_int s + of_int d * q" by (simp add: v_def d_def)
  then have "z - v = (z - (of_int s + y)) + (y - of_int d * p) + (of_int d * p - of_int d * q)"
    by simp
  then have "\<bar>z - v\<bar> \<le> 2 powi (- 46) + 2 powi (- 46) + 255 * 2 powi (- 53)"
    using e2 e3 e4 by linarith
  also have "\<dots> \<le> 1 / 2 ^ 44" by (simp add: power_int_minus)
  finally show ?thesis using z0 v0 by simp
qed

lemma interpolate_channel_near_spec:
  assumes "channel_ok s" "channel_ok e" "0 < i" "i \<le> n" "n \<le> 2 ^ 40"
  shows "near_spec s e i n (interpolate_channel s e (fl (of_nat i / of_nat n)))"
proof -
  define q :: rat where "q = of_nat i / of_nat n"
  define v where "v = of_int s + (of_int e - of_int s) * q"
  define z where "z = fl (py_float s + fl (py_float (e - s) * fl q))"
  define m where "m = s * int n + (e - s) * int i"
  define k where "k = m div int n"
  have n: "0 < n" using assms(3,4) by simp
  then have nq: "(0::rat) < of_int (int n)" by simp
  have err: "\<bar>z - v\<bar> \<le> 1 / 2 ^ 44" "0 \<le> z" "0 \<le> v"
    using interpolation_error [OF assms(1,2,3,4)] by (simp_all add: z_def v_def q_def)
  have zv: "z \<le> v + 1 / 2 ^ 44" "v - 1 / 2 ^ 44 \<le> z"
    using err(1) by linarith+
  have small: "(1::rat) / 2 ^ 44 < 1 / 2 ^ 40" "(1::rat) / 2 ^ 44 < 1" by simp_all
  have code: "interpolate_channel s e (fl (of_nat i / of_nat n)) = \<lfloor>z\<rfloor>"
    using err(2) by (simp add: interpolate_channel_def z_def q_def py_int_def trunc_toward_zero_def)
  have vm: "v = of_int m / of_int (int n)"
    using n by (simp add: v_def q_def m_def field_simps)
  have spec: "spec_fade_value s e i n = k"
  proof -
    have "spec_fade_value s e i n = \<lfloor>v\<rfloor>"
      using err(3) by (simp add: spec_fade_value_def trunc_toward_zero_def v_def q_def)
    then show ?thesis unfolding vm k_def by (simp only: floor_divide_of_int_eq)
  qed
  have mk: "m = k * int n + m mod int n" by (simp add: k_def)
  have md: "0 \<le> m mod int n" "m mod int n \<le> int n - 1" using n by simp_all
  have vk: "v = of_int k + of_int (m mod int n) / of_int (int n)"
    unfolding vm using nq by (subst mk) (simp add: add_divide_distrib)
  have inv: "1 / 2 ^ 40 \<le> 1 / (of_int (int n) :: rat)"
  proof -
    have "(of_int (int n) :: rat) \<le> of_int (2 ^ 40)"
      using assms(5) unfolding of_int_le_iff by simp
    then show ?thesis using nq by (simp add: frac_le)
  qed
  have "(of_int (m mod int n) :: rat) \<le> of_int (int n - 1)"
    using md unfolding of_int_le_iff by simp
  then have "of_int (m mod int n) / (of_int (int n) :: rat) \<le> of_int (int n - 1) / of_int (int n)"
    using nq by (intro divide_right_mono) simp_all
  also have "\<dots> = 1 - 1 / of_int (int n)" using nq by (simp add: diff_divide_distrib)
  finally have "v \<le> of_int k + 1 - 1 / 2 ^ 40" unfolding vk using inv by linarith
  then have up: "z < of_int k + 1" using zv small by linarith
  have "of_int k \<le> v" unfolding vk using md nq by simp
  then have lo: "of_int k - 1 \<le> z" using zv small by linarith
  have range: "\<lfloor>z\<rfloor> = k \<or> \<lfloor>z\<rfloor> = k - 1"
  proof (cases "of_int k \<le> z")
    case True
    then have "\<lfloor>z\<rfloor> = k" using up by (intro floor_unique) simp_all
    then show ?thesis by simp
  next
    case False
    then have "\<lfloor>z\<rfloor> = k - 1" using lo by (intro floor_unique) simp_all
    then show ?thesis by simp
  qed
  have exact: "\<lfloor>z\<rfloor> = k" if "\<not> int n dvd (e - s) * int i"
  proof -
    have "\<not> int n dvd m" using that by (simp add: m_def)
    then have "m mod int n \<noteq> 0" by (simp add: dvd_eq_mod_eq_0)
    then have "1 \<le> m mod int n" using md by linarith
    then have "(of_int 1 :: rat) \<le> of_int (m mod int n)" unfolding of_int_le_iff .
    then have "1 / of_int (int n) \<le> of_int (m mod int n) / (of_int (int n) :: rat)"
      using nq by (intro divide_right_mono) simp_all
    then have "of_int k + 1 / 2 ^ 40 \<le> v" unfolding vk using inv by linarith
    then have "of_int k \<le> z" using zv small by linarith
    then show ?thesis using up by (intro floor_unique) simp_all
  qed
  show ?thesis
    unfolding near_spec_def code spec using range exact by auto
qed

lemma monotonic_map_upt:
  assumes "(\<forall>i j. i \<le> j \<longrightarrow> f i \<le> f j) \<or> (\<forall>i j. i \<le> j \<longrightarrow> f j \<le> f i)"
  shows "monotonic (map f [a ..< b])"
  using assms
proof
  assume "\<forall>i j. i \<le> j \<longrightarrow> f i \<le> f j"
  then have "sorted (map f [a ..< b])" by (simp add: sorted_iff_nth_mono)
  then show ?thesis by (simp add: monotonic_def)
next
  assume "\<forall>i j. i \<le> j \<longrightarrow> f j \<le> f i"
  then have "sorted (rev (map f [a ..< b]))" by (simp add: sorted_rev_iff_nth_mono)
  then show ?thesis by (simp add: monotonic_def)
qed

lemma monotonic_channel:
  "monotonic (map (\<lambda>step. interpolate_channel s e (progress_at st step)) [a ..< b])"
proof (rule monotonic_map_upt)
  show "(\<forall>i j. i \<le> j \<longrightarrow>
           interpolate_channel s e (progress_at st i) \<le> interpolate_channel s e (progress_at st j))
      \<or> (\<forall>i j. i \<le> j \<longrightarrow>
           interpolate_channel s e (progress_at st j) \<le> interpolate_channel s e (progress_at st i))"
  proof (cases "s \<le> e")
    case True
    then show ?thesis by (simp add: interpolate_channel_mono progress_at_mono)
  next
    case False
    then show ?thesis by (simp add: interpolate_channel_antimono progress_at_mono)
  qed
qed

lemma length_fade_colors: "length (fade_colors st S E) = transition_steps st"
  by (simp add: fade_colors_def)

lemma nth_fade_colors:
  assumes "i < transition_steps st"
  shows "fade_colors st S E ! i = interpolate_color S E (progress_at st (Suc i))"
  using assms by (simp add: fade_colors_def nth_map_upt del: upt_Suc)

lemma fade_colors_monotonic: "channelwise_monotonic (fade_colors st S E)"
proof -
  obtain sr sg sb er eg eb where c: "S = (sr, sg, sb)" "E = (er, eg, eb)"
    by (cases S, cases E) auto
  show ?thesis
    unfolding channelwise_monotonic_def fade_colors_def c
    by (simp add: comp_def monotonic_channel del: upt_Suc)
qed

lemma fade_colors_between:
  assumes "color_ok S" "color_ok E"
  shows "list_all (color_between S E) (fade_colors st S E)"
proof -
  obtain sr sg sb er eg eb where c: "S = (sr, sg, sb)" "E = (er, eg, eb)"
    by (cases S, cases E) auto
  have "color_between S E (interpolate_color S E (progress_at st step))"
    if "step \<le> transition_steps st" for step
    using assms progress_at_range [OF that]
    by (simp add: c color_ok_def between_def interpolate_channel_range)
  then show ?thesis
    by (auto simp add: fade_colors_def list_all_iff)
qed

lemma fade_colors_last:
  assumes "color_ok S" "color_ok E" "0 < transition_steps st"
  shows "last (fade_colors st S E) = E"
proof -
  obtain sr sg sb er eg eb where c: "S = (sr, sg, sb)" "E = (er, eg, eb)"
    by (cases S, cases E) auto
  have "fade_colors st S E \<noteq> []" using assms(3) by (simp add: fade_colors_def)
  then have "last (fade_colors st S E) = fade_colors st S E ! (transition_steps st - 1)"
    by (simp add: last_conv_nth length_fade_colors)
  also have "\<dots> = interpolate_color S E (progress_at st (transition_steps st))"
    using assms(3) by (simp add: nth_fade_colors)
  also have "\<dots> = E"
    using assms by (simp add: progress_at_last c color_ok_def interpolate_channel_one)
  finally show ?thesis .
qed

lemma fade_colors_near_spec:
  assumes "color_ok S" "color_ok E" "transition_steps st \<le> 2 ^ 40"
  shows "list_all (\<lambda>i. color_near_spec S E i (transition_steps st) (fade_colors st S E ! (i - 1)))
           [1 ..< transition_steps st + 1]"
proof -
  obtain sr sg sb er eg eb where c: "S = (sr, sg, sb)" "E = (er, eg, eb)"
    by (cases S, cases E) auto
  have "color_near_spec S E i (transition_steps st) (fade_colors st S E ! (i - 1))"
    if i: "0 < i" "i \<le> transition_steps st" for i
  proof -
    have "fade_colors st S E ! (i - 1) = interpolate_color S E (progress_at st i)"
      using i nth_fade_colors [of "i - 1" st S E] by simp
    moreover have "progress_at st i = fl (of_nat i / of_nat (transition_steps st))"
      by (simp add: progress_at_def)
    ultimately show ?thesis
      using assms i by (simp add: c color_ok_def interpolate_channel_near_spec)
  qed
  then show ?thesis by (auto simp add: list_all_iff)
qed

text \<open>A call of \<^verbatim>\<open>set_color\<close> with \<^verbatim>\<open>last_color\<close> known in which no call fails writes the whole fade.\<close>

lemma set_color_whole_fade:
  assumes "last_color st = Some S" and "0 < transition_steps st"
    and "set_color env st E tr = (res, st', tr')"
    and "list_all (\<lambda>e. snd e = None) (drop (length tr) tr')"
  shows "map fst (writes (drop (length tr) tr')) = fade_colors st S E \<and> last_color st' = Some E"
  using assms(3)
proof (cases rule: set_color_cases)
  case (connected cst pre)
  have fc: "fade_colors cst S E = fade_colors st S E"
    using connected(6) by (simp add: fade_colors_def progress_at_def)
  have cs: "last_color cst = Some S" "0 < transition_steps cst"
    using connected(5,6) assms(1,2) by simp_all
  from set_color_connected_fade [OF cs connected(2), unfolded fc connected(5,6)]
  obtain evs where all: "tr' = (tr @ pre) @ evs
    \<and> map fst (writes evs) = take (length (writes evs)) (fade_colors st S E)
    \<and> list_all (\<lambda>w. snd w = None) (butlast (writes evs))
    \<and> (if list_all (\<lambda>e. snd e = None) evs
        then res = None \<and> st' = cst\<lparr>last_color := Some E\<rparr>
             \<and> length (writes evs) = transition_steps st
        else last_color st' = last_color st)
    \<and> (\<forall>m. writes evs \<noteq> [] \<and> snd (last (writes evs)) = Some (Failed m) \<longrightarrow>
          res = None \<and> st' = cst\<lparr>bulb := None\<rparr>)" ..
  note evs = all [THEN conjunct1]
    and w = all [THEN conjunct2, THEN conjunct1]
    and ok = all [THEN conjunct2, THEN conjunct2, THEN conjunct2, THEN conjunct1]
  have d: "drop (length tr) tr' = pre @ evs" using evs by simp
  then have "list_all (\<lambda>e. snd e = None) evs" using assms(4) by simp
  then have r: "st' = cst\<lparr>last_color := Some E\<rparr>" "length (writes evs) = transition_steps st"
    using ok by simp_all
  have "writes (drop (length tr) tr') = writes evs"
    unfolding d using connected(3) by (simp add: writes_append)
  then show ?thesis using w r by (simp add: length_fade_colors)
next
  case (unconnected pre)
  then show ?thesis using assms(4) by simp
qed

lemma interpolate_0_90_step_7: "interpolate_channel 0 90 (fl (7 / 10)) = 62"
  by code_simp

lemma interpolate_0_0: "interpolate_channel 0 0 p = 0"
  by (simp add: interpolate_channel_def py_float_def fl_zero py_int_def trunc_toward_zero_def)


lemma all_calls_succeed_steady:
  "list_all (\<lambda>e. snd e = None) (snd (snd spec_fade))"
  "list_all (\<lambda>e. snd e = None) (snd (snd fade_to_90))"
  by (simp_all add: spec_fade_def fade_to_90_def set_color_def set_color_connected_def
      black_actuator_def fresh_actuator_def MagicHomeController_init_def py_truediv_def
      perform_def Let_def steady_world_def world_def logger_def steps_ten)


section \<open>\<^verbatim>\<open>reconnect\<close>\<close>

lemma connect_and_discover_last_colors:
  "connect_and_discover env st tr = (r, st', tr') \<Longrightarrow>
     last_colors st' = last_colors st \<and> device_id st' = device_id st"
  by (auto simp add: connect_and_discover_def Let_def
      split: option.splits prod.splits sum.splits if_splits)

lemma reconnect_last_colors:
  "reconnect env st tr = (r, st', tr') \<Longrightarrow>
     last_colors st' = last_colors st \<and> device_id st' = device_id st"
  by (auto simp add: reconnect_def Let_def
      split: option.splits prod.splits if_splits dest: connect_and_discover_last_colors)

lemma iCueController_init_last_colors:
  "iCueController_init env did tr = (Inr st, tr') \<Longrightarrow> last_colors st = None"
  by (auto simp add: iCueController_init_def
      split: option.splits prod.splits dest: connect_and_discover_last_colors)

lemma get_average_color_failed_read:
  assumes "device st = Some d" "led_ids st \<noteq> []"
    and "outcome env tr (read_call st d) = Some (Failed m)"
  shows "get_average_color env st tr = reconnect_return_None env st (failed_read_trace st d tr m)"
  using assms
  by (simp add: get_average_color_def get_average_color_try_def perform_def Let_def
      read_call_def failed_read_trace_def)

lemma get_average_color_empty_read:
  assumes "device st = Some d" "led_ids st \<noteq> []" "sample_reads env st d tr []"
  shows "get_average_color env st tr =
     (case reconnect env st (empty_read_trace st d tr) of
        (None, st1, tr1) \<Rightarrow> (Inr None, st1, tr1)
      | (Some e, st1, tr1) \<Rightarrow>
          if is_Exception e
          then reconnect_return_None env st1 (logger ERROR ''Error getting LED colors'' tr1)
          else (Inl e, st1, tr1))"
  using assms
  by (simp add: get_average_color_def get_average_color_try_def perform_def Let_def
      sample_reads_def empty_read_trace_def after_read_def reconnect_return_None_def
      split: prod.splits option.splits)

lemma sample_1_eq:
  "sample_1 =
     (Inr (Some (127, 127, 0)), reader\<lparr>last_colors := Some [(255, 0, 0), (0, 255, 0)]\<rparr>,
      [(read_call reader keyboard, None), (Log INFO ''New average color'', None)])"
  using get_average_color_read [of reader keyboard flaky_world "[]" red_green]
  by (simp add: sample_1_def compute_average_red_green)
     (simp add: reader_def keyboard_def flaky_world_def world_def sample_reads_def red_green_def
        rgb_tuples_def after_read_def logger_def read_call_def)

lemma sample_2_eq:
  "fst sample_2 = Inr None
   \<and> fst (snd sample_2) = reader\<lparr>last_colors := Some [(255, 0, 0), (0, 255, 0)]\<rparr>
   \<and> length (snd (snd sample_2)) = 12
   \<and> last (snd (snd sample_2)) = (Log INFO ''iCUE controller reconnected with device'', None)"
  unfolding sample_2_def sample_1_eq
  by (simp add: get_average_color_def get_average_color_try_def reconnect_return_None_def
      reconnect_def connect_and_discover_def find_device_def find_all_led_ids_def
      perform_def Let_def logger_def read_call_def led_request_def
      reader_def keyboard_def flaky_world_def world_def)

lemma get_average_color_failed_read_last_colors:
  assumes "device st = Some d" "led_ids st \<noteq> []"
    and "outcome env tr (read_call st d) = Some (Failed m)"
    and "get_average_color env st tr = (res, st1, tr1)"
  shows "last_colors st1 = last_colors st"
  using assms(4) unfolding get_average_color_failed_read [OF assms(1,2,3)]
  by (auto simp add: reconnect_return_None_def split: prod.splits option.splits
      dest: reconnect_last_colors)

lemma flaky_facts:
  "device (fst (snd sample_1)) = Some keyboard" "led_ids (fst (snd sample_1)) \<noteq> []"
  "outcome flaky_world (snd (snd sample_1)) (read_call (fst (snd sample_1)) keyboard) =
     Some (Failed ''read failed'')"
  "device (fst (snd sample_2)) = Some keyboard" "led_ids (fst (snd sample_2)) \<noteq> []"
  "sample_reads flaky_world (fst (snd sample_2)) keyboard (snd (snd sample_2)) red_green"
  "red_green \<noteq> []"
  "last_colors (fst (snd sample_1)) = Some (rgb_tuples red_green)"
  using sample_2_eq
  by (simp_all add: sample_1_eq reader_def flaky_world_def world_def sample_reads_def
      red_green_def rgb_tuples_def)

lemma flaky_reconnect:
  "fst (reconnect flaky_world (fst (snd sample_1))
          (failed_read_trace (fst (snd sample_1)) keyboard (snd (snd sample_1)) ''read failed'')) =
     None"
  unfolding sample_1_eq
  by (simp add: reconnect_def connect_and_discover_def find_device_def find_all_led_ids_def
      perform_def Let_def logger_def read_call_def led_request_def failed_read_trace_def
      reader_def keyboard_def flaky_world_def world_def)


section \<open>What each operation leaves alone, and the loop\<close>

lemma turn_off_calls_append: "turn_off_calls (xs @ ys) = turn_off_calls xs + turn_off_calls ys"
  by (simp add: turn_off_calls_def)

lemma turn_off_calls_Nil: "turn_off_calls [] = 0"
  by (simp add: turn_off_calls_def)

lemma turn_off_calls_Cons:
  "turn_off_calls (e # es) = (if fst e = Enter_turn_off then 1 else 0) + turn_off_calls es"
  by (simp add: turn_off_calls_def)

lemma turn_off_calls_logger: "turn_off_calls (logger lvl msg tr) = turn_off_calls tr"
  by (simp add: logger_def turn_off_calls_def)

text \<open>What the reader does leaves the writes and the entries of \<^verbatim>\<open>turn_off\<close> as they are.\<close>

lemma find_device_frame:
  "find_device env did tr = (r, tr') \<Longrightarrow>
     writes tr' = writes tr \<and> turn_off_calls tr' = turn_off_calls tr"
  by (auto simp add: find_device_def perform_def Let_def writes_append writes_Cons writes_Nil
      turn_off_calls_append turn_off_calls_Cons turn_off_calls_Nil split: option.splits)

lemma find_all_led_ids_frame:
  "find_all_led_ids env dev tr = (r, tr') \<Longrightarrow>
     writes tr' = writes tr \<and> turn_off_calls tr' = turn_off_calls tr"
  by (auto simp add: find_all_led_ids_def perform_def Let_def writes_append writes_Cons writes_Nil
      writes_logger turn_off_calls_logger
      turn_off_calls_append turn_off_calls_Cons turn_off_calls_Nil split: option.splits if_splits)

lemma connect_and_discover_frame:
  "connect_and_discover env st tr = (r, st', tr') \<Longrightarrow>
     writes tr' = writes tr \<and> turn_off_calls tr' = turn_off_calls tr"
  by (auto simp add: connect_and_discover_def perform_def Let_def writes_append writes_Cons
      writes_Nil turn_off_calls_append turn_off_calls_Cons turn_off_calls_Nil
      split: option.splits if_splits prod.splits sum.splits
      dest!: find_device_frame find_all_led_ids_frame)

lemma reconnect_frame:
  "reconnect env st tr = (r, st', tr') \<Longrightarrow>
     writes tr' = writes tr \<and> turn_off_calls tr' = turn_off_calls tr"
  by (auto simp add: reconnect_def perform_def Let_def writes_append writes_Cons
      writes_Nil writes_logger turn_off_calls_logger
      turn_off_calls_append turn_off_calls_Cons turn_off_calls_Nil
      split: option.splits if_splits prod.splits
      dest!: connect_and_discover_frame)

lemma reconnect_return_None_frame:
  "reconnect_return_None env st tr = (r, st', tr') \<Longrightarrow>
     writes tr' = writes tr \<and> turn_off_calls tr' = turn_off_calls tr"
  by (auto simp add: reconnect_return_None_def split: option.splits prod.splits
      dest!: reconnect_frame)

lemma get_average_color_try_frame:
  "get_average_color_try env st d tr = (r, st', tr') \<Longrightarrow>
     writes tr' = writes tr \<and> turn_off_calls tr' = turn_off_calls tr"
  by (auto simp add: get_average_color_try_def perform_def Let_def writes_append writes_Cons
      writes_Nil writes_logger turn_off_calls_logger
      turn_off_calls_append turn_off_calls_Cons turn_off_calls_Nil
      split: option.splits if_splits prod.splits sum.splits
      dest!: reconnect_return_None_frame)

lemma get_average_color_frame:
  "get_average_color env st tr = (r, st', tr') \<Longrightarrow>
     writes tr' = writes tr \<and> turn_off_calls tr' = turn_off_calls tr"
  by (auto simp add: get_average_color_def writes_logger turn_off_calls_logger
      split: option.splits if_splits prod.splits sum.splits
      dest!: reconnect_return_None_frame get_average_color_try_frame)


lemma float_mean_channel_ok:
  assumes "list_all (\<lambda>x. channel_ok (f x)) xs" "xs \<noteq> []"
  shows "channel_ok (py_int (fl (of_int (sum_list (map f xs)) / of_nat (length xs))))"
proof -
  let ?a = "sum_list (map f xs)" and ?q = "of_int (sum_list (map f xs)) / of_nat (length xs) :: rat"
  have n: "(0::rat) < of_nat (length xs)" using assms(2) by simp
  have a: "0 \<le> ?a" "?a \<le> 255 * int (length xs)"
    using sum_list_channel_bounds [OF assms(1)] by simp_all
  have "(of_int ?a :: rat) \<le> of_int (255 * int (length xs))"
    using a(2) unfolding of_int_le_iff .
  then have "?q \<le> 255" using n by (simp add: pos_divide_le_eq)
  moreover have "0 \<le> ?q" using a(1) by simp
  ultimately have "of_int 0 \<le> ?q" "?q \<le> of_int 255" by simp_all
  then have "of_int 0 \<le> fl ?q" "fl ?q \<le> of_int 255"
    using fl_ge_of_int [of 0 ?q] fl_le_of_int [of ?q 255] by simp_all
  then have "py_int (of_int 0) \<le> py_int (fl ?q)" "py_int (fl ?q) \<le> py_int (of_int 255)"
    by (auto intro: py_int_mono)
  then show ?thesis unfolding py_int_of_int by (simp add: channel_ok_def)
qed

lemma compute_average_color_ok:
  assumes "leds_ok leds" "leds \<noteq> []" "compute_average leds = Inr avg"
  shows "color_ok avg"
proof -
  have "list_all (\<lambda>x. channel_ok (led_r x)) leds" "list_all (\<lambda>x. channel_ok (led_g x)) leds"
    "list_all (\<lambda>x. channel_ok (led_b x)) leds"
    using assms(1) by (simp_all add: leds_ok_def list_all_iff)
  then show ?thesis
    using assms(2,3)
    by (auto simp add: compute_average_nonempty color_ok_def float_mean_channel_ok)
qed

lemma get_average_color_try_color_ok:
  assumes "readings_ok env" "get_average_color_try env st d tr = (Inr (Some c), st', tr')"
  shows "color_ok c"
proof -
  have "leds_ok (led_colors_result env tr (dev_id d) (led_request st))"
    using assms(1) by (simp add: readings_ok_def)
  then show ?thesis
    using assms(2)
    by (auto simp add: get_average_color_try_def perform_def Let_def reconnect_return_None_def
        split: option.splits if_splits prod.splits sum.splits
        dest: compute_average_color_ok)
qed

lemma get_average_color_color_ok:
  assumes "readings_ok env" "get_average_color env st tr = (Inr (Some c), st', tr')"
  shows "color_ok c"
  using assms(2)
  by (auto simp add: get_average_color_def reconnect_return_None_def
      split: option.splits if_splits prod.splits sum.splits
      dest: get_average_color_try_color_ok [OF assms(1)])

lemma connect_frame:
  "connect env st tr = (r, st', tr') \<Longrightarrow>
     turn_off_calls tr' = turn_off_calls tr \<and> writes tr' = writes tr
     \<and> transition_steps st' = transition_steps st \<and> last_color st' = last_color st"
  by (auto simp add: connect_def perform_def Let_def writes_append writes_Cons writes_Nil
      writes_logger turn_off_calls_logger turn_off_calls_append turn_off_calls_Cons
      turn_off_calls_Nil split: option.splits signal.splits)

lemma fade_loop_frame:
  "fade_loop env st start target steps tr = (r, st', tr') \<Longrightarrow>
     turn_off_calls tr' = turn_off_calls tr
     \<and> transition_steps st' = transition_steps st \<and> last_color st' = last_color st"
proof (induction steps arbitrary: tr)
  case Nil
  then show ?case by simp
next
  case (Cons step steps)
  then show ?case
    by (auto simp add: perform_def Let_def turn_off_calls_logger turn_off_calls_append
        turn_off_calls_Cons turn_off_calls_Nil
        split: sum.splits prod.splits option.splits signal.splits)
qed

lemma set_color_connected_frame:
  "set_color_connected env st c tr = (r, st', tr') \<Longrightarrow>
     turn_off_calls tr' = turn_off_calls tr \<and> transition_steps st' = transition_steps st"
  by (auto simp add: set_color_connected_def perform_def Let_def turn_off_calls_logger
      turn_off_calls_append turn_off_calls_Cons turn_off_calls_Nil
      split: sum.splits prod.splits option.splits signal.splits bool.splits
      dest!: fade_loop_frame)

lemma set_color_frame:
  "set_color env st c tr = (r, st', tr') \<Longrightarrow>
     turn_off_calls tr' = turn_off_calls tr \<and> transition_steps st' = transition_steps st"
  by (auto simp add: set_color_def
      split: prod.splits option.splits if_splits
      dest!: connect_frame set_color_connected_frame)

lemma color_between_ok:
  assumes "color_ok S" "color_ok E" "color_between S E x"
  shows "color_ok x"
proof -
  obtain sr sg sb er eg eb xr xg xb
    where c: "S = (sr, sg, sb)" "E = (er, eg, eb)" "x = (xr, xg, xb)"
    by (cases S, cases E, cases x) auto
  show ?thesis
    using assms unfolding c by (auto simp add: color_ok_def channel_ok_def between_def)
qed

lemma writes_ok_append: "writes_ok (xs @ ys) \<longleftrightarrow> writes_ok xs \<and> writes_ok ys"
  by (simp add: writes_ok_def writes_append)

lemma writes_ok_prefix:
  assumes "map fst ws = take (length ws) cs" "list_all P cs"
  shows "list_all (\<lambda>w. P (fst w)) ws"
proof -
  have "list_all P (map fst ws)"
    unfolding assms(1) using assms(2) by (auto simp add: list_all_iff dest: in_set_takeD)
  then show ?thesis by (simp add: list_all_iff)
qed

lemma set_color_writes_ok:
  assumes "actuator_ok st" and "color_ok c" and "writes_ok tr"
    and "set_color env st c tr = (r, st', tr')"
  shows "writes_ok tr' \<and> actuator_ok st'"
proof -
  have n: "0 < transition_steps st" "transition_steps st' = transition_steps st"
    using assms(1) set_color_frame [OF assms(4)] by (simp_all add: actuator_ok_def)
  from assms(4) show ?thesis
  proof (cases rule: set_color_cases)
    case (unconnected pre)
    have "writes tr' = writes tr" using unconnected(2,3) by (simp add: writes_append)
    then have "writes_ok tr'" using assms(3) by (simp add: writes_ok_def)
    moreover have "actuator_ok st'"
      using assms(1) n unconnected(4) by (simp add: actuator_ok_def)
    ultimately show ?thesis by simp
  next
    case (connected cst pre)
    show ?thesis
    proof (cases "last_color st")
      case None
      then have "last_color cst = None" using connected(5) by simp
      from set_color_connected_first [OF this connected(2)]
      obtain evs s where evs: "tr' = (tr @ pre) @ evs" "writes evs = [(c, s)]"
        and l: "s = None \<longrightarrow> r = None \<and> st' = cst\<lparr>last_color := Some c\<rparr>"
          "s \<noteq> None \<longrightarrow> last_color st' = None"
        by blast
      have "writes_ok tr'"
        using assms(2,3) connected(3) evs by (simp add: writes_ok_def writes_append)
      moreover have "actuator_ok st'"
        using l n assms(2) by (cases s) (simp_all add: actuator_ok_def)
      ultimately show ?thesis by simp
    next
      case (Some start)
      then have start: "color_ok start" using assms(1) by (simp add: actuator_ok_def)
      have fc: "fade_colors cst start c = fade_colors st start c"
        using connected(6) by (simp add: fade_colors_def progress_at_def)
      have cs: "last_color cst = Some start" "0 < transition_steps cst"
        using connected(5,6) Some n by simp_all
      from set_color_connected_fade [OF cs connected(2), unfolded fc connected(5,6)]
      obtain evs where all: "tr' = (tr @ pre) @ evs
        \<and> map fst (writes evs) = take (length (writes evs)) (fade_colors st start c)
        \<and> list_all (\<lambda>w. snd w = None) (butlast (writes evs))
        \<and> (if list_all (\<lambda>e. snd e = None) evs
            then r = None \<and> st' = cst\<lparr>last_color := Some c\<rparr>
                 \<and> length (writes evs) = transition_steps st
            else last_color st' = last_color st)
        \<and> (\<forall>m. writes evs \<noteq> [] \<and> snd (last (writes evs)) = Some (Failed m) \<longrightarrow>
              r = None \<and> st' = cst\<lparr>bulb := None\<rparr>)" ..
      note evs = all [THEN conjunct1]
        and w = all [THEN conjunct2, THEN conjunct1]
        and ok = all [THEN conjunct2, THEN conjunct2, THEN conjunct2, THEN conjunct1]
      have "list_all (color_ok) (fade_colors st start c)"
        using fade_colors_between [OF start assms(2), of st] color_between_ok [OF start assms(2)]
        by (auto simp add: list_all_iff)
      then have "list_all (\<lambda>w. color_ok (fst w)) (writes evs)"
        using w by (rule writes_ok_prefix [rotated])
      then have "writes_ok tr'"
        using assms(3) connected(3) evs by (simp add: writes_ok_def writes_append)
      moreover have "last_color st' = Some c \<or> last_color st' = last_color st"
        using ok by (cases "list_all (\<lambda>e. snd e = None) evs") simp_all
      then have "actuator_ok st'"
        using n assms(1,2) by (auto simp add: actuator_ok_def)
      ultimately show ?thesis by simp
    qed
  qed
qed

lemma perform_frame:
  assumes "perform env c tr = (s, tr')" "write_of (c, s) = []" "c \<noteq> Enter_turn_off"
  shows "writes tr' = writes tr \<and> turn_off_calls tr' = turn_off_calls tr"
  using assms
  by (auto simp add: perform_def Let_def writes_append writes_Cons writes_Nil
      turn_off_calls_append turn_off_calls_Cons turn_off_calls_Nil)

lemma bridge_loop_invariant:
  assumes "readings_ok env"
  shows "actuator_ok mh \<Longrightarrow> writes_ok tr
    \<Longrightarrow> bridge_loop fuel env icue mh tr = (r, icue', mh', tr')
    \<Longrightarrow> writes_ok tr' \<and> actuator_ok mh' \<and> turn_off_calls tr' = turn_off_calls tr"
proof (induction fuel arbitrary: icue mh tr)
  case 0
  then show ?case by simp
next
  case (Suc fuel)
  obtain g icue1 tr1 where g: "get_average_color env icue tr = (g, icue1, tr1)"
    by (cases "get_average_color env icue tr")
  have f1: "writes tr1 = writes tr" "turn_off_calls tr1 = turn_off_calls tr"
    using get_average_color_frame [OF g] by simp_all
  then have w1: "writes_ok tr1" using Suc.prems(2) by (simp add: writes_ok_def)
  show ?case
  proof (cases g)
    case (Inl e)
    then show ?thesis using Suc.prems g f1 w1 by simp
  next
    case (Inr color)
    obtain sr mh1 tr2 where s: "(case color of None \<Rightarrow> (None, mh, tr1)
        | Some c \<Rightarrow> set_color env mh c tr1) = (sr, mh1, tr2)"
      by (cases "case color of None \<Rightarrow> (None, mh, tr1) | Some c \<Rightarrow> set_color env mh c tr1")
    have s2: "writes_ok tr2 \<and> actuator_ok mh1 \<and> turn_off_calls tr2 = turn_off_calls tr1"
    proof (cases color)
      case None
      then show ?thesis using s w1 Suc.prems(1) by simp
    next
      case (Some c)
      then have c: "color_ok c"
        using get_average_color_color_ok [OF assms] g Inr by simp
      have sc: "set_color env mh c tr1 = (sr, mh1, tr2)" using s Some by simp
      show ?thesis
        using set_color_writes_ok [OF Suc.prems(1) c w1 sc] set_color_frame [OF sc] by simp
    qed
    show ?thesis
    proof (cases sr)
      case (Some e)
      then show ?thesis using Suc.prems(3) g Inr s s2 f1 by simp
    next
      case None
      obtain sg tr3 where p: "perform env (Time_sleep (1 / 10)) tr2 = (sg, tr3)"
        by (cases "perform env (Time_sleep (1 / 10)) tr2")
      have f3: "writes tr3 = writes tr2" "turn_off_calls tr3 = turn_off_calls tr2"
        using perform_frame [OF p] by simp_all
      then have w3: "writes_ok tr3" using s2 by (simp add: writes_ok_def)
      show ?thesis
      proof (cases sg)
        case (Some sig)
        then show ?thesis using Suc.prems(3) g Inr s None p s2 f1 f3 w3 by simp
      next
        case n: None
        then have "bridge_loop fuel env icue1 mh1 tr3 = (r, icue', mh', tr')"
          using Suc.prems(3) g Inr s None p by simp
        from Suc.IH [OF _ w3 this] s2 f1 f3 show ?thesis by simp
      qed
    qed
  qed
qed

lemma bridge_loop_turn_off_calls:
  "bridge_loop fuel env icue mh tr = (r, icue', mh', tr')
    \<Longrightarrow> turn_off_calls tr' = turn_off_calls tr"
proof (induction fuel arbitrary: icue mh tr)
  case 0
  then show ?case by simp
next
  case (Suc fuel)
  then show ?case
    by (auto simp add: perform_def Let_def turn_off_calls_append turn_off_calls_Cons
        turn_off_calls_Nil
        split: sum.splits prod.splits option.splits
        dest!: get_average_color_frame set_color_frame)
qed

lemma bridge_loop_more_fuel:
  "bridge_loop fuel env icue mh tr = (Some e, icue', mh', tr')
    \<Longrightarrow> bridge_loop (fuel + k) env icue mh tr = (Some e, icue', mh', tr')"
proof (induction fuel arbitrary: icue mh tr)
  case 0
  then show ?case by simp
next
  case (Suc fuel)
  then show ?case
    by (auto split: sum.splits prod.splits option.splits)
qed

lemma iCueController_init_frame:
  "iCueController_init env did tr = (r, tr') \<Longrightarrow>
     writes tr' = writes tr \<and> turn_off_calls tr' = turn_off_calls tr"
  by (auto simp add: iCueController_init_def writes_logger turn_off_calls_logger
      split: option.splits prod.splits dest!: connect_and_discover_frame)

lemma turn_off_connected_result:
  assumes "turn_off_connected env st tr = (r, st', tr')"
  shows "turn_off_calls tr' = turn_off_calls tr \<and> writes tr' = writes tr
    \<and> (r = None \<or> r = Some KeyboardInterrupt)
    \<and> (r = Some KeyboardInterrupt \<longrightarrow> last tr' = (Bulb_turnOff, Some Interrupted))
    \<and> (r = None \<longrightarrow> (\<exists>lvl msg. last tr' = (Log lvl msg, None)))
    \<and> (\<exists>evs. tr' = tr @ evs \<and> evs \<noteq> [])"
  using assms
  by (auto simp add: turn_off_connected_def perform_def Let_def logger_def writes_append
      writes_Cons writes_Nil turn_off_calls_append turn_off_calls_Cons turn_off_calls_Nil
      split: option.splits signal.splits)

lemma connect_events:
  assumes "connect env st tr = (r, st', tr')"
  shows "(r = None \<or> r = Some KeyboardInterrupt)
    \<and> (r = Some KeyboardInterrupt \<longrightarrow> (\<exists>c. last tr' = (c, Some Interrupted)))
    \<and> (r = None \<longrightarrow> (\<exists>lvl msg. last tr' = (Log lvl msg, None)))"
  using assms
  by (auto simp add: connect_def perform_def Let_def logger_def
      split: option.splits signal.splits)

lemma turn_off_result:
  assumes "turn_off env st tr = (r, st', tr')"
  shows "turn_off_calls tr' = turn_off_calls tr + 1 \<and> writes tr' = writes tr
    \<and> (r = None \<or> r = Some KeyboardInterrupt)
    \<and> (r = Some KeyboardInterrupt \<longrightarrow> (\<exists>c. last tr' = (c, Some Interrupted)))
    \<and> (r = None \<longrightarrow> (\<exists>lvl msg. last tr' = (Log lvl msg, None)))"
proof (cases "bulb st = None")
  case False
  then have "turn_off_connected env st (tr @ [(Enter_turn_off, None)]) = (r, st', tr')"
    using assms unfolding turn_off_def Let_def by (simp only: if_False)
  from turn_off_connected_result [OF this] show ?thesis
    by (auto simp add: writes_append writes_Cons writes_Nil turn_off_calls_append
        turn_off_calls_Cons turn_off_calls_Nil)
next
  case True
  obtain cr cst ctr where c: "connect env st (tr @ [(Enter_turn_off, None)]) = (cr, cst, ctr)"
    by (cases "connect env st (tr @ [(Enter_turn_off, None)])")
  have cf: "turn_off_calls ctr = turn_off_calls tr + 1" "writes ctr = writes tr"
    using connect_frame [OF c]
    by (simp_all add: writes_append writes_Cons writes_Nil turn_off_calls_append
        turn_off_calls_Cons turn_off_calls_Nil)
  show ?thesis
  proof (cases "cr = None \<and> bulb cst \<noteq> None")
    case ok: True
    then have "turn_off_connected env cst ctr = (r, st', tr')"
      using assms True c unfolding turn_off_def Let_def by auto
    from turn_off_connected_result [OF this] cf show ?thesis by auto
  next
    case bad: False
    then have "(r, st', tr') = (cr, cst, ctr)"
      using assms True c unfolding turn_off_def Let_def by (auto split: option.splits)
    then show ?thesis using connect_events [OF c] cf by auto
  qed
qed

lemma turn_off_failure_logged:
  assumes "turn_off env st tr = (r, st', tr')"
    and "(c, Some (Failed m)) \<in> set (drop (length tr) tr')"
  shows "r = None \<and> bulb st' = None
    \<and> (last tr' = (Log WARNING ''Error turning off LED strip'', None)
        \<or> last tr' = (Log ERROR ''Error connecting to Magic Home'', None))"
  using assms
  by (auto simp add: turn_off_def turn_off_connected_def connect_def perform_def Let_def
      logger_def split: option.splits signal.splits if_splits)

section \<open>Runs of the bridge\<close>

lemma red_green_nonempty: "red_green \<noteq> []"
  by (simp add: red_green_def)

lemma started_eq:
  "started =
     (Inr reader,
      [(Sdk_connect, None), (Time_sleep 1, None), (Sdk_get_devices, None),
       (Sdk_get_led_positions ''keyboard-1'', None), (Log INFO ''All LEDs found'', None),
       (Log INFO ''iCUE controller initialized with device'', None)])"
  by (simp add: started_def iCueController_init_def connect_and_discover_def find_device_def
      find_all_led_ids_def perform_def Let_def logger_def demo_config_def reader_def
      keyboard_def stop_world_def world_def)

lemma first_tick_eq: "fst first_tick = Some KeyboardInterrupt"
  unfolding first_tick_def started_eq
  by (simp add: get_average_color_def get_average_color_try_def
      compute_average_red_green red_green_nonempty
      set_color_def set_color_connected_def connect_def MagicHomeController_init_def
      perform_def Let_def logger_def demo_config_def reader_def
      keyboard_def stop_world_def world_def)

lemma stopped_bridge_eval:
  "\<exists>tr'. stopped_bridge = Some (None, tr')
     \<and> (Bulb_turnOff, Some (Failed ''unreachable'')) \<in> set tr'
     \<and> last tr' = (Log WARNING ''Error turning off LED strip'', None)"
  using started_eq
  by (simp add: stopped_bridge_def start_bridge_def started_def
      get_average_color_def get_average_color_try_def
      compute_average_red_green red_green_nonempty
      set_color_def set_color_connected_def connect_def MagicHomeController_init_def
      turn_off_def turn_off_connected_def
      perform_def Let_def logger_def demo_config_def reader_def
      keyboard_def stop_world_def world_def)

lemma actuator_ok_init: "actuator_ok (MagicHomeController_init ip)"
  by (simp add: actuator_ok_def MagicHomeController_init_def)

lemma writes_ok_logger: "writes_ok (logger lvl msg tr) = writes_ok tr"
  by (simp add: writes_ok_def writes_logger)

lemma start_bridge_writes_ok:
  assumes "readings_ok env" and "writes_ok tr"
    and "start_bridge env cfg fuel tr = Some (r, tr')"
  shows "writes_ok tr'"
proof -
  obtain ir tr1 where i: "iCueController_init env (icue_device_id cfg) tr = (ir, tr1)"
    by (cases "iCueController_init env (icue_device_id cfg) tr")
  have w1: "writes_ok tr1"
    using iCueController_init_frame [OF i] assms(2) by (simp add: writes_ok_def)
  show ?thesis
  proof (cases ir)
    case (Inl e)
    then show ?thesis
      using assms(3) i w1 by (auto simp add: start_bridge_def writes_ok_logger split: if_splits)
  next
    case (Inr icue)
    obtain lr icue1 mh1 tr2
      where l: "bridge_loop fuel env icue (MagicHomeController_init (magichome_ip cfg)) tr1 =
        (lr, icue1, mh1, tr2)"
      by (cases "bridge_loop fuel env icue (MagicHomeController_init (magichome_ip cfg)) tr1")
        auto
    have w2: "writes_ok tr2"
      using bridge_loop_invariant [OF assms(1) actuator_ok_init w1 l] by simp
    show ?thesis
    proof (cases lr)
      case None
      then show ?thesis using assms(3) i Inr l by (simp add: start_bridge_def)
    next
      case (Some e)
      define T where "T = (if is_Exception e then logger ERROR ''Unexpected error'' tr2 else tr2)"
      obtain tr3 tmh tt where t: "turn_off env mh1 T = (tr3, tmh, tt)"
        by (cases "turn_off env mh1 T")
      have "writes tt = writes tr2"
        using turn_off_result [OF t] by (simp add: T_def writes_logger)
      then have "writes_ok tt" using w2 by (simp add: writes_ok_def)
      then show ?thesis
        using assms(3) i Inr l Some t
        by (auto simp add: start_bridge_def T_def writes_ok_logger split: option.splits if_splits)
    qed
  qed
qed

lemma readings_ok_steady: "readings_ok steady_world"
  by (simp add: readings_ok_def steady_world_def world_def leds_ok_def red_green_def
      channel_ok_def)

lemma after_steady_sample_eq:
  "get_average_color steady_world reader [] =
     (Inr (Some (127, 127, 0)), fst (snd after_steady_sample), snd (snd after_steady_sample))"
proof -
  have h: "device reader = Some keyboard" "led_ids reader \<noteq> []"
    "sample_reads steady_world reader keyboard [] red_green" "red_green \<noteq> []"
    by (simp_all add: reader_def steady_world_def world_def sample_reads_def red_green_def)
  have "last_colors reader = None" by (simp add: reader_def)
  then have "fst after_steady_sample = Inr (Some (127, 127, 0))"
    using get_average_color_read [OF h]
    by (simp add: after_steady_sample_def compute_average_red_green)
  then show ?thesis by (simp add: after_steady_sample_def prod_eq_iff)
qed

section \<open>The claims\<close>

text \<open>
  C1 as stated fails: suppression is decided on the per-element colors. Two consecutive
  reads, red then green and green then red, have the same aggregate, and the second call
  returns that aggregate again.
\<close>

theorem change_suppression_counterexample:
  "spec_aggregate red_green = spec_aggregate green_red
   \<and> fst after_first_sample = Inr (Some (127, 127, 0))
   \<and> fst (get_average_color swapping_world (fst (snd after_first_sample))
           (snd (snd after_first_sample))) = Inr (Some (127, 127, 0))"
proof -
  have "spec_aggregate red_green = spec_aggregate green_red"
    by (simp add: spec_aggregate_def truncated_mean_div red_green_def green_red_def)
  moreover have "fst (get_average_color swapping_world (fst (snd after_first_sample))
           (snd (snd after_first_sample))) = Inr (Some (127, 127, 0))"
    unfolding after_first_sample_eq
    using get_average_color_read [of "reader\<lparr>last_colors := Some [(255, 0, 0), (0, 255, 0)]\<rparr>"
        keyboard swapping_world
        "[(Sdk_get_led_colors ''keyboard-1'' (led_request reader), None),
          (Log INFO ''New average color'', None)]" green_red]
    by (simp add: compute_average_green_red)
       (simp add: reader_def keyboard_def swapping_world_def world_def sample_reads_def green_red_def
          rgb_tuples_def led_request_def)
  ultimately show ?thesis by (simp add: after_first_sample_eq)
qed

text \<open>
  C1 (amended). Change suppression compares the per-element colors, not the aggregate.
  When the read returns a non-empty list: if its tuple of per-element colors equals
  \<^verbatim>\<open>last_colors\<close>, \<^verbatim>\<open>get_average_color\<close> returns nothing and leaves the state as it
  is; otherwise it stores the tuple in \<^verbatim>\<open>last_colors\<close> and returns the new aggregate.
  So of two consecutive calls, the second one returns nothing when its read returns the
  same per-element colors as the first, and returns its aggregate when its read returns
  other per-element colors, whatever their aggregate.
\<close>

theorem change_suppression:
  assumes "device st = Some d" and "led_ids st \<noteq> []"
    and "sample_reads env st d tr leds" and "leds \<noteq> []"
  shows "(\<exists>avg. compute_average leds = Inr avg
           \<and> get_average_color env st tr =
               (if Some (rgb_tuples leds) = last_colors st
                then (Inr None, st, after_read st d tr)
                else (Inr (Some avg), st\<lparr>last_colors := Some (rgb_tuples leds)\<rparr>,
                      logger INFO ''New average color'' (after_read st d tr))))
    \<and> (\<forall>res st1 tr1 leds2.
          get_average_color env st tr = (res, st1, tr1)
          \<and> sample_reads env st1 d tr1 leds2 \<and> rgb_tuples leds2 = rgb_tuples leds
          \<longrightarrow> get_average_color env st1 tr1 = (Inr None, st1, after_read st1 d tr1))
    \<and> (\<forall>res st1 tr1 leds2.
          get_average_color env st tr = (res, st1, tr1)
          \<and> sample_reads env st1 d tr1 leds2 \<and> leds2 \<noteq> []
          \<and> rgb_tuples leds2 \<noteq> rgb_tuples leds
          \<longrightarrow> (\<exists>avg2. compute_average leds2 = Inr avg2
                 \<and> get_average_color env st1 tr1 =
                     (Inr (Some avg2), st1\<lparr>last_colors := Some (rgb_tuples leds2)\<rparr>,
                      logger INFO ''New average color'' (after_read st1 d tr1))))"
proof -
  obtain avg where avg: "compute_average leds = Inr avg"
    and first: "get_average_color env st tr =
        (if Some (rgb_tuples leds) = last_colors st then (Inr None, st, after_read st d tr)
         else (Inr (Some avg), st\<lparr>last_colors := Some (rgb_tuples leds)\<rparr>,
               logger INFO ''New average color'' (after_read st d tr)))"
    using get_average_color_read [OF assms(1,2,3,4)] by blast
  have same: "get_average_color env st1 tr1 = (Inr None, st1, after_read st1 d tr1)"
    if g: "get_average_color env st tr = (res, st1, tr1)"
      and r: "sample_reads env st1 d tr1 leds2" and e: "rgb_tuples leds2 = rgb_tuples leds"
    for res st1 tr1 leds2
  proof -
    have st1: "device st1 = Some d" "led_ids st1 \<noteq> []"
      "last_colors st1 = Some (rgb_tuples leds)"
      using first g assms(1,2) by (auto split: if_splits)
    have "leds2 \<noteq> []" using assms(4) e by (auto simp add: rgb_tuples_def)
    then show ?thesis
      using get_average_color_read [OF st1(1,2) r] st1(3) e by auto
  qed
  have other: "\<exists>avg2. compute_average leds2 = Inr avg2
                 \<and> get_average_color env st1 tr1 =
                     (Inr (Some avg2), st1\<lparr>last_colors := Some (rgb_tuples leds2)\<rparr>,
                      logger INFO ''New average color'' (after_read st1 d tr1))"
    if g: "get_average_color env st tr = (res, st1, tr1)"
      and r: "sample_reads env st1 d tr1 leds2" and n: "leds2 \<noteq> []"
      and e: "rgb_tuples leds2 \<noteq> rgb_tuples leds"
    for res st1 tr1 leds2
  proof -
    have st1: "device st1 = Some d" "led_ids st1 \<noteq> []"
      "last_colors st1 = Some (rgb_tuples leds)"
      using first g assms(1,2) by (auto split: if_splits)
    show ?thesis
      using get_average_color_read [OF st1(1,2) r n] st1(3) e by auto
  qed
  have "\<exists>avg. compute_average leds = Inr avg
           \<and> get_average_color env st tr =
               (if Some (rgb_tuples leds) = last_colors st
                then (Inr None, st, after_read st d tr)
                else (Inr (Some avg), st\<lparr>last_colors := Some (rgb_tuples leds)\<rparr>,
                      logger INFO ''New average color'' (after_read st d tr)))"
    using avg first by blast
  then show ?thesis using same other by blast
qed

theorem change_suppression_witness:
  "device reader = Some keyboard \<and> led_ids reader \<noteq> []
   \<and> sample_reads steady_world reader keyboard [] red_green
   \<and> sample_reads swapping_world reader keyboard [] red_green \<and> red_green \<noteq> []
   \<and> get_average_color steady_world reader [] =
       (Inr (Some (127, 127, 0)), reader\<lparr>last_colors := Some (rgb_tuples red_green)\<rparr>,
        logger INFO ''New average color'' (after_read reader keyboard []))
   \<and> sample_reads steady_world (fst (snd after_steady_sample)) keyboard
        (snd (snd after_steady_sample)) red_green
   \<and> get_average_color steady_world (fst (snd after_steady_sample))
          (snd (snd after_steady_sample)) =
       (Inr None, fst (snd after_steady_sample),
        after_read (fst (snd after_steady_sample)) keyboard (snd (snd after_steady_sample)))
   \<and> sample_reads swapping_world (fst (snd after_first_sample)) keyboard
        (snd (snd after_first_sample)) green_red
   \<and> green_red \<noteq> [] \<and> rgb_tuples green_red \<noteq> rgb_tuples red_green
   \<and> fst (get_average_color swapping_world (fst (snd after_first_sample))
          (snd (snd after_first_sample))) = Inr (Some (127, 127, 0))"
proof -
  have h: "device reader = Some keyboard" "led_ids reader \<noteq> []"
    "sample_reads steady_world reader keyboard [] red_green" "red_green \<noteq> []"
    by (simp_all add: reader_def steady_world_def world_def sample_reads_def red_green_def)
  have hs: "sample_reads swapping_world reader keyboard [] red_green"
    by (simp add: reader_def swapping_world_def world_def sample_reads_def)
  have l: "last_colors reader = None" by (simp add: reader_def)
  note c = change_suppression [OF h]
  note cs = change_suppression [OF h(1,2) hs h(4)]
  have first: "get_average_color steady_world reader [] =
       (Inr (Some (127, 127, 0)), reader\<lparr>last_colors := Some (rgb_tuples red_green)\<rparr>,
        logger INFO ''New average color'' (after_read reader keyboard []))"
    using c l by (auto simp add: compute_average_red_green)
  have s: "get_average_color steady_world reader [] =
      (fst after_steady_sample, fst (snd after_steady_sample), snd (snd after_steady_sample))"
    by (simp add: after_steady_sample_def)
  have h2: "sample_reads steady_world (fst (snd after_steady_sample)) keyboard
        (snd (snd after_steady_sample)) red_green"
    using first
    by (simp add: after_steady_sample_def steady_world_def world_def sample_reads_def)
  have second: "get_average_color steady_world (fst (snd after_steady_sample))
          (snd (snd after_steady_sample)) =
       (Inr None, fst (snd after_steady_sample),
        after_read (fst (snd after_steady_sample)) keyboard (snd (snd after_steady_sample)))"
    using c s h2 by blast
  have ss: "get_average_color swapping_world reader [] =
      (fst after_first_sample, fst (snd after_first_sample), snd (snd after_first_sample))"
    by (simp add: after_first_sample_def)
  have h3: "sample_reads swapping_world (fst (snd after_first_sample)) keyboard
        (snd (snd after_first_sample)) green_red"
    "green_red \<noteq> []" "rgb_tuples green_red \<noteq> rgb_tuples red_green"
    by (simp_all add: after_first_sample_eq swapping_world_def world_def sample_reads_def
        green_red_def red_green_def rgb_tuples_def)
  from cs ss h3 obtain avg2 where "compute_average green_red = Inr avg2"
    "get_average_color swapping_world (fst (snd after_first_sample))
          (snd (snd after_first_sample)) =
       (Inr (Some avg2),
        (fst (snd after_first_sample))\<lparr>last_colors := Some (rgb_tuples green_red)\<rparr>,
        logger INFO ''New average color''
          (after_read (fst (snd after_first_sample)) keyboard (snd (snd after_first_sample))))"
    by blast
  then have third: "fst (get_average_color swapping_world (fst (snd after_first_sample))
          (snd (snd after_first_sample))) = Inr (Some (127, 127, 0))"
    by (simp add: compute_average_green_red)
  show ?thesis
    using h hs first h2 second h3 third by blast
qed

text \<open>
  C2. Averaging correctness. When the read returns a non-empty list of elements with
  channels in \<open>[0,255]\<close> that is not suppressed, \<^verbatim>\<open>get_average_color\<close> returns, per
  channel, the arithmetic mean over all elements truncated toward zero. The program
  divides in floating point, and the truncated float quotient is the truncated exact
  mean for every list of at most \<open>2\<^sup>4\<^sup>5\<close> elements.
\<close>

theorem averaging_correctness:
  assumes "device st = Some d" and "led_ids st \<noteq> []"
    and "sample_reads env st d tr leds"
    and "leds \<noteq> []" and "leds_ok leds" and "length leds \<le> 2 ^ 45"
    and "Some (rgb_tuples leds) \<noteq> last_colors st"
  shows "fst (get_average_color env st tr) = Inr (Some (spec_aggregate leds))"
proof -
  have "compute_average leds = Inr (spec_aggregate leds)"
    using assms(5,4,6) by (rule compute_average_eq_spec)
  then show ?thesis
    using get_average_color_read [OF assms(1,2,3,4)] assms(7) by auto
qed

theorem averaging_correctness_witness:
  "device reader = Some keyboard \<and> led_ids reader \<noteq> []
   \<and> sample_reads (world (\<lambda>n. None) (\<lambda>n. red_green)) reader keyboard [] red_green
   \<and> red_green \<noteq> [] \<and> leds_ok red_green \<and> length red_green \<le> 2 ^ 45
   \<and> Some (rgb_tuples red_green) \<noteq> last_colors reader
   \<and> fst (get_average_color (world (\<lambda>n. None) (\<lambda>n. red_green)) reader []) =
       Inr (Some (127, 127, 0))"
proof -
  have h: "device reader = Some keyboard" "led_ids reader \<noteq> []"
    "sample_reads (world (\<lambda>n. None) (\<lambda>n. red_green)) reader keyboard [] red_green"
    "red_green \<noteq> []" "leds_ok red_green" "length red_green \<le> 2 ^ 45"
    "Some (rgb_tuples red_green) \<noteq> last_colors reader"
    by (simp_all add: reader_def red_green_def sample_reads_def world_def leds_ok_def
        channel_ok_def)
  have "spec_aggregate red_green = (127, 127, 0)"
    by (simp add: spec_aggregate_def truncated_mean_div red_green_def)
  then show ?thesis
    using h averaging_correctness [OF h] by simp
qed

text \<open>
  C3 as stated fails: \<^verbatim>\<open>reconnect\<close> raises again what it catches, and
  \<^verbatim>\<open>get_average_color\<close> calls it outside any handler. The read fails, the device is
  not found on reconnecting, and the \<open>RuntimeError\<close> reaches the caller and ends the
  loop of \<^verbatim>\<open>start_bridge\<close>.
\<close>

theorem sample_never_raises_counterexample:
  "device reader = Some keyboard \<and> led_ids reader \<noteq> []
   \<and> outcome unplugged_world [] (read_call reader keyboard) = Some (Failed ''read failed'')
   \<and> fst (get_average_color unplugged_world reader []) = Inl (RuntimeError ''Device not found'')
   \<and> fst (bridge_loop (Suc 0) unplugged_world reader fresh_actuator []) =
       Some (RuntimeError ''Device not found'')"
  by (simp add: get_average_color_def get_average_color_try_def reconnect_return_None_def
      reconnect_def connect_and_discover_def find_device_def find_all_led_ids_def
      perform_def Let_def logger_def read_call_def led_request_def
      reader_def keyboard_def unplugged_world_def world_def)

text \<open>
  C3 (amended). When the per-element read raises an \<open>Exception\<close> or returns no
  element, \<^verbatim>\<open>get_average_color\<close> calls \<^verbatim>\<open>reconnect\<close> and returns no color: its state
  and its trace are those \<^verbatim>\<open>reconnect\<close> leaves, it returns nothing when \<^verbatim>\<open>reconnect\<close>
  returns, and it raises to its caller what \<^verbatim>\<open>reconnect\<close> raises. After a read that
  returned no element, an \<open>Exception\<close> raised by that \<^verbatim>\<open>reconnect\<close> is caught by the
  handler of \<^verbatim>\<open>get_average_color\<close>, which calls \<^verbatim>\<open>reconnect\<close> once more, outside any
  handler. Whatever \<^verbatim>\<open>get_average_color\<close> raises ends the loop of \<^verbatim>\<open>start_bridge\<close>.
\<close>

theorem read_failure_reconnects:
  assumes "device st = Some d" and "led_ids st \<noteq> []"
  shows "(outcome env tr (read_call st d) = Some (Failed m) \<longrightarrow>
            get_average_color env st tr =
              (case reconnect env st (failed_read_trace st d tr m) of
                 (None, st1, tr1) \<Rightarrow> (Inr None, st1, tr1)
               | (Some e, st1, tr1) \<Rightarrow> (Inl e, st1, tr1)))
    \<and> (sample_reads env st d tr [] \<longrightarrow>
            get_average_color env st tr =
              (case reconnect env st (empty_read_trace st d tr) of
                 (None, st1, tr1) \<Rightarrow> (Inr None, st1, tr1)
               | (Some e, st1, tr1) \<Rightarrow>
                   if is_Exception e
                   then
                     (case reconnect env st1 (logger ERROR ''Error getting LED colors'' tr1) of
                        (None, st2, tr2) \<Rightarrow> (Inr None, st2, tr2)
                      | (Some e2, st2, tr2) \<Rightarrow> (Inl e2, st2, tr2))
                   else (Inl e, st1, tr1)))
    \<and> (outcome env tr (read_call st d) = Some (Failed m) \<or> sample_reads env st d tr [] \<longrightarrow>
            (\<forall>c. fst (get_average_color env st tr) \<noteq> Inr (Some c)))
    \<and> (\<forall>e fuel magic_home.
          fst (get_average_color env st tr) = Inl e \<longrightarrow>
            bridge_loop (Suc fuel) env st magic_home tr =
              (Some e, fst (snd (get_average_color env st tr)), magic_home,
               snd (snd (get_average_color env st tr))))"
proof -
  have failed: "get_average_color env st tr =
              (case reconnect env st (failed_read_trace st d tr m) of
                 (None, st1, tr1) \<Rightarrow> (Inr None, st1, tr1)
               | (Some e, st1, tr1) \<Rightarrow> (Inl e, st1, tr1))"
    if "outcome env tr (read_call st d) = Some (Failed m)"
    unfolding get_average_color_failed_read [OF assms that] reconnect_return_None_def ..
  have empty: "get_average_color env st tr =
              (case reconnect env st (empty_read_trace st d tr) of
                 (None, st1, tr1) \<Rightarrow> (Inr None, st1, tr1)
               | (Some e, st1, tr1) \<Rightarrow>
                   if is_Exception e
                   then
                     (case reconnect env st1 (logger ERROR ''Error getting LED colors'' tr1) of
                        (None, st2, tr2) \<Rightarrow> (Inr None, st2, tr2)
                      | (Some e2, st2, tr2) \<Rightarrow> (Inl e2, st2, tr2))
                   else (Inl e, st1, tr1))"
    if "sample_reads env st d tr []"
    unfolding get_average_color_empty_read [OF assms that] reconnect_return_None_def ..
  have "fst (get_average_color env st tr) \<noteq> Inr (Some c)"
    if "outcome env tr (read_call st d) = Some (Failed m) \<or> sample_reads env st d tr []" for c
    using that
  proof
    assume f: "outcome env tr (read_call st d) = Some (Failed m)"
    show ?thesis
      unfolding failed [OF f] by (auto split: prod.splits option.splits)
  next
    assume e: "sample_reads env st d tr []"
    show ?thesis
      unfolding empty [OF e] by (auto split: prod.splits option.splits if_splits)
  qed
  moreover have "bridge_loop (Suc fuel) env st magic_home tr =
              (Some e, fst (snd (get_average_color env st tr)), magic_home,
               snd (snd (get_average_color env st tr)))"
    if "fst (get_average_color env st tr) = Inl e" for e fuel magic_home
    using that by (cases "get_average_color env st tr") simp
  ultimately show ?thesis using failed empty by blast
qed

theorem read_failure_reconnects_witness:
  "device (fst (snd sample_1)) = Some keyboard \<and> led_ids (fst (snd sample_1)) \<noteq> []
   \<and> outcome flaky_world (snd (snd sample_1)) (read_call (fst (snd sample_1)) keyboard) =
       Some (Failed ''read failed'')
   \<and> sample_2 =
       (case reconnect flaky_world (fst (snd sample_1))
               (failed_read_trace (fst (snd sample_1)) keyboard (snd (snd sample_1))
                  ''read failed'') of
          (None, st1, tr1) \<Rightarrow> (Inr None, st1, tr1)
        | (Some e, st1, tr1) \<Rightarrow> (Inl e, st1, tr1))
   \<and> fst (reconnect flaky_world (fst (snd sample_1))
          (failed_read_trace (fst (snd sample_1)) keyboard (snd (snd sample_1)) ''read failed'')) =
       None
   \<and> fst sample_2 = Inr None
   \<and> device reader = Some keyboard \<and> led_ids reader \<noteq> []
   \<and> fst (get_average_color unplugged_world reader []) = Inl (RuntimeError ''Device not found'')
   \<and> fst (bridge_loop (Suc 0) unplugged_world reader fresh_actuator []) =
       Some (RuntimeError ''Device not found'')"
proof -
  note t = read_failure_reconnects [OF flaky_facts(1,2), of flaky_world "snd (snd sample_1)"
      "''read failed''"]
  have eq: "sample_2 =
       (case reconnect flaky_world (fst (snd sample_1))
               (failed_read_trace (fst (snd sample_1)) keyboard (snd (snd sample_1))
                  ''read failed'') of
          (None, st1, tr1) \<Rightarrow> (Inr None, st1, tr1)
        | (Some e, st1, tr1) \<Rightarrow> (Inl e, st1, tr1))"
    unfolding sample_2_def using t flaky_facts(3) by blast
  have none: "fst sample_2 = Inr None"
    unfolding eq using flaky_reconnect by (auto split: prod.splits option.splits)
  have u: "device reader = Some keyboard" "led_ids reader \<noteq> []"
    by (simp_all add: reader_def)
  have raised: "fst (get_average_color unplugged_world reader []) =
      Inl (RuntimeError ''Device not found'')"
    by (simp add: get_average_color_def get_average_color_try_def reconnect_return_None_def
        reconnect_def connect_and_discover_def find_device_def find_all_led_ids_def
        perform_def Let_def logger_def read_call_def led_request_def
        reader_def keyboard_def unplugged_world_def world_def)
  have "bridge_loop (Suc 0) unplugged_world reader fresh_actuator [] =
      (Some (RuntimeError ''Device not found''),
       fst (snd (get_average_color unplugged_world reader [])), fresh_actuator,
       snd (snd (get_average_color unplugged_world reader [])))"
    using read_failure_reconnects [OF u, of unplugged_world "[]"] raised by blast
  then have loop: "fst (bridge_loop (Suc 0) unplugged_world reader fresh_actuator []) =
       Some (RuntimeError ''Device not found'')"
    by simp
  show ?thesis
    using flaky_facts(1,2,3) eq flaky_reconnect none u raised loop by blast
qed

text \<open>
  C4 as stated fails: \<^verbatim>\<open>reconnect\<close> does not touch \<^verbatim>\<open>last_colors\<close>. A first sample
  returns the aggregate, the read of the second one fails and the reconnect succeeds,
  and the third sample, whose read returns what the first one did, is suppressed.
\<close>

theorem post_reconnect_reset_counterexample:
  "fst sample_1 = Inr (Some (127, 127, 0))
   \<and> outcome flaky_world (snd (snd sample_1)) (read_call (fst (snd sample_1)) keyboard) =
       Some (Failed ''read failed'')
   \<and> fst sample_2 = Inr None
   \<and> last (snd (snd sample_2)) = (Log INFO ''iCUE controller reconnected with device'', None)
   \<and> sample_reads flaky_world (fst (snd sample_2)) keyboard (snd (snd sample_2)) red_green
   \<and> last_colors (fst (snd sample_2)) = Some (rgb_tuples red_green)
   \<and> fst sample_3 = Inr None"
proof -
  have "last_colors (fst (snd sample_2)) = Some (rgb_tuples red_green)"
    using sample_2_eq by (simp add: reader_def red_green_def rgb_tuples_def)
  moreover from this have "fst sample_3 = Inr None"
    using get_average_color_read [OF flaky_facts(4,5,6,7)] by (simp add: sample_3_def)
  ultimately show ?thesis
    using sample_2_eq flaky_facts(3,6) by (simp add: sample_1_eq)
qed

text \<open>
  C4 (amended). \<^verbatim>\<open>last_colors\<close> is unknown on a newly constructed reader, and
  \<^verbatim>\<open>reconnect\<close> leaves \<^verbatim>\<open>last_colors\<close> as it is. So after a read failure followed by a
  successful reconnect, a sample whose read returns the same per-element colors as the
  last accepted one before the failure is suppressed.
\<close>

theorem reconnect_keeps_last_colors:
  assumes "device st = Some d" and "led_ids st \<noteq> []"
    and "outcome env tr (read_call st d) = Some (Failed m)"
    and "get_average_color env st tr = (Inr None, st1, tr1)"
    and "device st1 = Some d1" and "led_ids st1 \<noteq> []"
    and "sample_reads env st1 d1 tr1 leds" and "leds \<noteq> []"
    and "last_colors st = Some (rgb_tuples leds)"
  shows "last_colors st1 = last_colors st
    \<and> get_average_color env st1 tr1 = (Inr None, st1, after_read st1 d1 tr1)
    \<and> (\<forall>did tr0 st0 tr0'. iCueController_init env did tr0 = (Inr st0, tr0')
          \<longrightarrow> last_colors st0 = None)
    \<and> (\<forall>st tr r st' tr'. reconnect env st tr = (r, st', tr')
          \<longrightarrow> last_colors st' = last_colors st)"
proof -
  have l: "last_colors st1 = last_colors st"
    using assms(1,2,3,4) by (rule get_average_color_failed_read_last_colors)
  then have "get_average_color env st1 tr1 = (Inr None, st1, after_read st1 d1 tr1)"
    using get_average_color_read [OF assms(5,6,7,8)] assms(9) by auto
  then show ?thesis
    using l iCueController_init_last_colors reconnect_last_colors by blast
qed

theorem reconnect_keeps_last_colors_witness:
  "device (fst (snd sample_1)) = Some keyboard \<and> led_ids (fst (snd sample_1)) \<noteq> []
   \<and> outcome flaky_world (snd (snd sample_1)) (read_call (fst (snd sample_1)) keyboard) =
       Some (Failed ''read failed'')
   \<and> sample_2 = (Inr None, fst (snd sample_2), snd (snd sample_2))
   \<and> device (fst (snd sample_2)) = Some keyboard \<and> led_ids (fst (snd sample_2)) \<noteq> []
   \<and> sample_reads flaky_world (fst (snd sample_2)) keyboard (snd (snd sample_2)) red_green
   \<and> red_green \<noteq> []
   \<and> last_colors (fst (snd sample_1)) = Some (rgb_tuples red_green)
   \<and> last_colors (fst (snd sample_2)) = last_colors (fst (snd sample_1))
   \<and> fst sample_3 = Inr None"
proof -
  have s2: "get_average_color flaky_world (fst (snd sample_1)) (snd (snd sample_1)) =
      (Inr None, fst (snd sample_2), snd (snd sample_2))"
    using sample_2_eq by (simp add: sample_2_def prod_eq_iff)
  note t = reconnect_keeps_last_colors [OF flaky_facts(1,2,3) s2 flaky_facts(4,5,6,7,8)]
  from t have "last_colors (fst (snd sample_2)) = last_colors (fst (snd sample_1))"
    by (rule conjunct1)
  moreover from t have "fst sample_3 = Inr None"
    by (simp add: sample_3_def)
  moreover have "sample_2 = (Inr None, fst (snd sample_2), snd (snd sample_2))"
    using s2 by (simp add: sample_2_def)
  ultimately show ?thesis using flaky_facts by blast
qed

text \<open>
  C5 as stated fails: the program evaluates \<open>S + (E - S) \<times> (i / N)\<close> in binary floating
  point. Fading from 0 to 90, step 7 of 10 computes \<open>90 \<times> 0.7 = 62.99999999999999\<close>,
  so the seventh commanded color is \<open>(62, 0, 0)\<close>, where the formula gives \<open>(63, 0, 0)\<close>.
\<close>

theorem fade_interpolation_counterexample:
  "map fst (writes (snd (snd fade_to_90))) ! (7 - 1) = (62, 0, 0)
   \<and> spec_fade_color (0, 0, 0) (90, 0, 0) 7 10 = (63, 0, 0)"
proof -
  have h: "last_color black_actuator = Some (0, 0, 0)" "0 < transition_steps black_actuator"
    "transition_steps black_actuator = 10"
    by (simp_all add: black_actuator_def fresh_actuator_def MagicHomeController_init_def)
  have e: "set_color steady_world black_actuator (90, 0, 0) [] =
      (fst fade_to_90, fst (snd fade_to_90), snd (snd fade_to_90))"
    by (simp add: fade_to_90_def)
  have "map fst (writes (snd (snd fade_to_90))) = fade_colors black_actuator (0, 0, 0) (90, 0, 0)"
    using set_color_whole_fade [OF h(1,2) e] all_calls_succeed_steady(2) by simp
  moreover have "fade_colors black_actuator (0, 0, 0) (90, 0, 0) ! 6 =
      interpolate_color (0, 0, 0) (90, 0, 0) (progress_at black_actuator 7)"
    using nth_fade_colors [of 6 black_actuator] h(3) by simp
  moreover have "progress_at black_actuator 7 = fl (7 / 10)"
    by (simp add: progress_at_def h(3))
  ultimately have "map fst (writes (snd (snd fade_to_90))) ! (7 - 1) = (62, 0, 0)"
    by (simp add: interpolate_0_90_step_7 interpolate_0_0)
  moreover have "spec_fade_color (0, 0, 0) (90, 0, 0) 7 10 = (63, 0, 0)"
    by (simp add: spec_fade_value_def trunc_toward_zero_def)
  ultimately show ?thesis by simp
qed

text \<open>
  C5 (amended). In a call of \<^verbatim>\<open>set_color\<close> with \<^verbatim>\<open>last_color\<close> \<open>S\<close> known, 10 steps,
  channels of \<open>S\<close> and of the target \<open>E\<close> in \<open>[0,255]\<close>, in which no call fails, the
  colors written are exactly those of steps 1 to 10 (the start color is not sent
  again), each channel being \<^verbatim>\<open>int(S + (E - S) * (i / 10))\<close> evaluated in binary
  floating point. That value is the spec's truncated exact value, or one below it where
  the exact value is an integer. The sequence is monotonic per channel, every color lies
  between \<open>S\<close> and \<open>E\<close> per channel, the tenth color is \<open>E\<close>, and \<^verbatim>\<open>last_color\<close>
  becomes \<open>E\<close>.
\<close>

theorem fade_interpolation:
  assumes "last_color st = Some S" and "transition_steps st = 10"
    and "color_ok S" and "color_ok E"
    and "set_color env st E tr = (res, st', tr')"
    and "list_all (\<lambda>e. snd e = None) (drop (length tr) tr')"
  shows "map fst (writes (drop (length tr) tr')) = fade_colors st S E
    \<and> length (fade_colors st S E) = 10
    \<and> list_all (\<lambda>i. color_near_spec S E i 10 (fade_colors st S E ! (i - 1))) [1 ..< 10 + 1]
    \<and> channelwise_monotonic (fade_colors st S E)
    \<and> list_all (color_between S E) (fade_colors st S E)
    \<and> last (fade_colors st S E) = E
    \<and> last_color st' = Some E"
proof -
  have n: "0 < transition_steps st" "transition_steps st \<le> 2 ^ 40"
    using assms(2) by simp_all
  have "map fst (writes (drop (length tr) tr')) = fade_colors st S E \<and> last_color st' = Some E"
    using assms(1) n(1) assms(5,6) by (rule set_color_whole_fade)
  moreover have "length (fade_colors st S E) = 10"
    using assms(2) by (simp add: length_fade_colors)
  moreover have "list_all (\<lambda>i. color_near_spec S E i 10 (fade_colors st S E ! (i - 1)))
      [1 ..< 10 + 1]"
    using fade_colors_near_spec [OF assms(3,4) n(2)] unfolding assms(2) .
  moreover have "channelwise_monotonic (fade_colors st S E)"
    by (rule fade_colors_monotonic)
  moreover have "list_all (color_between S E) (fade_colors st S E)"
    using assms(3,4) by (rule fade_colors_between)
  moreover have "last (fade_colors st S E) = E"
    using assms(3,4) n(1) by (rule fade_colors_last)
  ultimately show ?thesis by blast
qed

theorem fade_interpolation_witness:
  "last_color black_actuator = Some (0, 0, 0) \<and> transition_steps black_actuator = 10
   \<and> color_ok (0, 0, 0) \<and> color_ok (100, 200, 50)
   \<and> list_all (\<lambda>e. snd e = None) (drop (length ([] :: trace)) (snd (snd spec_fade)))
   \<and> map fst (writes (drop (length ([] :: trace)) (snd (snd spec_fade)))) =
       fade_colors black_actuator (0, 0, 0) (100, 200, 50)
   \<and> length (fade_colors black_actuator (0, 0, 0) (100, 200, 50)) = 10
   \<and> channelwise_monotonic (fade_colors black_actuator (0, 0, 0) (100, 200, 50))
   \<and> list_all (color_between (0, 0, 0) (100, 200, 50))
        (fade_colors black_actuator (0, 0, 0) (100, 200, 50))
   \<and> last (fade_colors black_actuator (0, 0, 0) (100, 200, 50)) = (100, 200, 50)
   \<and> last_color (fst (snd spec_fade)) = Some (100, 200, 50)"
proof -
  have h: "last_color black_actuator = Some (0, 0, 0)" "transition_steps black_actuator = 10"
    "color_ok (0, 0, 0)" "color_ok (100, 200, 50)"
    by (simp_all add: black_actuator_def fresh_actuator_def MagicHomeController_init_def
        color_ok_def channel_ok_def)
  have e: "set_color steady_world black_actuator (100, 200, 50) [] =
      (fst spec_fade, fst (snd spec_fade), snd (snd spec_fade))"
    by (simp add: spec_fade_def)
  have a: "list_all (\<lambda>e. snd e = None) (drop (length ([] :: trace)) (snd (snd spec_fade)))"
    using all_calls_succeed_steady(1) by simp
  show ?thesis
    using fade_interpolation [OF h e a] h a by blast
qed

text \<open>
  C6. First command, no fade. When \<^verbatim>\<open>last_color\<close> is unknown, as on a freshly
  constructed actuator, \<^verbatim>\<open>set_color\<close> makes exactly one device write, of the target
  color itself, provided a connection is at hand (the bulb is set or the one attempt to
  connect succeeds); the write having succeeded, \<^verbatim>\<open>last_color\<close> is the target. With no
  connection the call makes no write at all. In neither case is there an interpolated
  step.
\<close>

theorem first_command_no_fade:
  assumes "last_color st = None"
    and "set_color env st target tr = (res, st', tr')"
  shows "\<exists>evs. tr' = tr @ evs
    \<and> (if connection_available env st tr
        then \<exists>s. writes evs = [(target, s)] \<and> (s = None \<longrightarrow> last_color st' = Some target)
        else writes evs = [] \<and> last_color st' = None)"
  using assms(2)
proof (cases rule: set_color_cases)
  case (connected cst pre)
  from set_color_connected_first [OF _ connected(2)] connected(5) assms(1)
  obtain evs s where "tr' = (tr @ pre) @ evs" "writes evs = [(target, s)]"
    "s = None \<longrightarrow> res = None \<and> st' = cst\<lparr>last_color := Some target\<rparr>"
    by auto
  then show ?thesis
    using connected(1,3)
    by (intro exI [of _ "pre @ evs"]) (auto simp add: writes_append)
next
  case (unconnected pre)
  then show ?thesis
    using assms(1) by (intro exI [of _ pre]) simp
qed

theorem first_command_no_fade_witness:
  "last_color fresh_actuator = None
   \<and> connection_available steady_world fresh_actuator []
   \<and> (\<exists>evs. snd (snd first_command) = [] @ evs
        \<and> (\<exists>s. writes evs = [((127, 127, 0), s)]
             \<and> (s = None \<longrightarrow> last_color (fst (snd first_command)) = Some (127, 127, 0))))
   \<and> writes (snd (snd first_command)) = [((127, 127, 0), None)]
   \<and> last_color (fst (snd first_command)) = Some (127, 127, 0)"
proof -
  have h: "last_color fresh_actuator = None"
    by (simp add: fresh_actuator_def MagicHomeController_init_def)
  have c: "connection_available steady_world fresh_actuator []"
    by (simp add: connection_available_def connect_def perform_def Let_def logger_def
        fresh_actuator_def MagicHomeController_init_def steady_world_def world_def)
  have e: "set_color steady_world fresh_actuator (127, 127, 0) [] =
      (fst first_command, fst (snd first_command), snd (snd first_command))"
    by (simp add: first_command_def)
  have v: "writes (snd (snd first_command)) = [((127, 127, 0), None)]"
    "last_color (fst (snd first_command)) = Some (127, 127, 0)"
    by (simp_all add: first_command_def set_color_def set_color_connected_def connect_def
        perform_def Let_def logger_def writes_def
        fresh_actuator_def MagicHomeController_init_def steady_world_def world_def)
  have "\<exists>evs. snd (snd first_command) = [] @ evs
        \<and> (\<exists>s. writes evs = [((127, 127, 0), s)]
             \<and> (s = None \<longrightarrow> last_color (fst (snd first_command)) = Some (127, 127, 0)))"
    using first_command_no_fade [OF h e] c by simp
  then show ?thesis
    using h c v by blast
qed

text \<open>
  C7. Fail-fast mid-fade. In a call of \<^verbatim>\<open>set_color\<close> with \<^verbatim>\<open>last_color\<close> known: if the
  \<open>k\<close>-th device write fails, exactly \<open>k\<close> writes were attempted, they are the first \<open>k\<close>
  interpolated colors, the call returns with \<^verbatim>\<open>self.bulb\<close> cleared and \<^verbatim>\<open>last_color\<close>
  unchanged. \<^verbatim>\<open>last_color\<close> changes only when every call of the fade succeeded, and then
  it is the target; when every call succeeds it is set to the target.
\<close>

theorem fail_fast_mid_fade:
  assumes "last_color st = Some start" and "0 < transition_steps st"
    and "set_color env st target tr = (res, st', tr')"
  shows "\<exists>evs. tr' = tr @ evs
    \<and> (\<forall>k m. 0 < k \<and> k \<le> length (writes evs) \<and> snd (writes evs ! (k - 1)) = Some (Failed m)
          \<longrightarrow> length (writes evs) = k
              \<and> map fst (writes evs) = take k (fade_colors st start target)
              \<and> res = None \<and> bulb st' = None \<and> last_color st' = last_color st)
    \<and> (last_color st' \<noteq> last_color st
          \<longrightarrow> last_color st' = Some target \<and> length (writes evs) = transition_steps st
              \<and> list_all (\<lambda>e. snd e = None) evs)
    \<and> (list_all (\<lambda>e. snd e = None) evs \<longrightarrow> last_color st' = Some target)"
  using assms(3)
proof (cases rule: set_color_cases)
  case (connected cst pre)
  have fc: "fade_colors cst start target = fade_colors st start target"
    using connected(6) by (simp add: fade_colors_def progress_at_def)
  have cs: "last_color cst = Some start" "0 < transition_steps cst"
    using connected(5,6) assms(1,2) by simp_all
  from set_color_connected_fade [OF cs connected(2), unfolded fc connected(5,6)]
  obtain evs where all: "tr' = (tr @ pre) @ evs
    \<and> map fst (writes evs) = take (length (writes evs)) (fade_colors st start target)
    \<and> list_all (\<lambda>w. snd w = None) (butlast (writes evs))
    \<and> (if list_all (\<lambda>e. snd e = None) evs
        then res = None \<and> st' = cst\<lparr>last_color := Some target\<rparr>
             \<and> length (writes evs) = transition_steps st
        else last_color st' = last_color st)
    \<and> (\<forall>m. writes evs \<noteq> [] \<and> snd (last (writes evs)) = Some (Failed m) \<longrightarrow>
          res = None \<and> st' = cst\<lparr>bulb := None\<rparr>)" ..
  note evs = all [THEN conjunct1]
    and w = all [THEN conjunct2, THEN conjunct1]
    and bl = all [THEN conjunct2, THEN conjunct2, THEN conjunct1]
    and ok = all [THEN conjunct2, THEN conjunct2, THEN conjunct2, THEN conjunct1]
    and failed = all [THEN conjunct2, THEN conjunct2, THEN conjunct2, THEN conjunct2]
  have we: "writes (pre @ evs) = writes evs"
    using connected(3) by (simp add: writes_append)
  have a: "length (writes evs) = k
              \<and> map fst (writes evs) = take k (fade_colors st start target)
              \<and> res = None \<and> bulb st' = None \<and> last_color st' = last_color st"
    if k: "0 < k" "k \<le> length (writes evs)" "snd (writes evs ! (k - 1)) = Some (Failed m)" for k m
  proof -
    have len: "k = length (writes evs)"
      using bl k by (intro failed_write_is_last) simp_all
    then have "writes evs \<noteq> []" "last (writes evs) = writes evs ! (k - 1)"
      using k(1) by (auto simp add: last_conv_nth)
    then have "res = None \<and> st' = cst\<lparr>bulb := None\<rparr>"
      using failed k(3) by simp
    then show ?thesis using len w connected(5) by simp
  qed
  have b: "last_color st' = Some target \<and> length (writes evs) = transition_steps st
              \<and> list_all (\<lambda>e. snd e = None) (pre @ evs)"
    if "last_color st' \<noteq> last_color st"
  proof -
    have "list_all (\<lambda>e. snd e = None) evs" using ok that by (cases "list_all (\<lambda>e. snd e = None) evs") simp_all
    then show ?thesis using ok connected(4) by simp
  qed
  have c: "last_color st' = Some target" if "list_all (\<lambda>e. snd e = None) (pre @ evs)"
  proof -
    have "list_all (\<lambda>e. snd e = None) evs" using that by simp
    then show ?thesis using ok by simp
  qed
  show ?thesis
  proof (intro exI [of _ "pre @ evs"] conjI)
    show "tr' = tr @ pre @ evs" using evs by simp
    show "\<forall>k m. 0 < k \<and> k \<le> length (writes (pre @ evs))
            \<and> snd (writes (pre @ evs) ! (k - 1)) = Some (Failed m)
          \<longrightarrow> length (writes (pre @ evs)) = k
              \<and> map fst (writes (pre @ evs)) = take k (fade_colors st start target)
              \<and> res = None \<and> bulb st' = None \<and> last_color st' = last_color st"
      unfolding we using a by blast
    show "last_color st' \<noteq> last_color st
          \<longrightarrow> last_color st' = Some target
              \<and> length (writes (pre @ evs)) = transition_steps st
              \<and> list_all (\<lambda>e. snd e = None) (pre @ evs)"
      unfolding we using b by blast
    show "list_all (\<lambda>e. snd e = None) (pre @ evs) \<longrightarrow> last_color st' = Some target"
      using c by blast
  qed
next
  case (unconnected pre)
  then show ?thesis
    by (intro exI [of _ pre]) simp
qed

theorem fail_fast_mid_fade_witness:
  "last_color black_actuator = Some (0, 0, 0) \<and> 0 < transition_steps black_actuator
   \<and> (0::nat) < 3 \<and> 3 \<le> length (writes (snd (snd broken_fade)))
   \<and> snd (writes (snd (snd broken_fade)) ! (3 - 1)) = Some (Failed ''timed out'')
   \<and> length (writes (snd (snd broken_fade))) = 3
   \<and> map fst (writes (snd (snd broken_fade))) =
       take 3 (fade_colors black_actuator (0, 0, 0) (100, 200, 50))
   \<and> fst broken_fade = None \<and> bulb (fst (snd broken_fade)) = None
   \<and> last_color (fst (snd broken_fade)) = last_color black_actuator"
proof -
  have h: "last_color black_actuator = Some (0, 0, 0)" "0 < transition_steps black_actuator"
    by (simp_all add: black_actuator_def fresh_actuator_def MagicHomeController_init_def)
  have e: "set_color failing_world black_actuator (100, 200, 50) [] =
      (fst broken_fade, fst (snd broken_fade), snd (snd broken_fade))"
    by (simp add: broken_fade_def)
  from broken_fade_eval obtain c1 c2 c3 tr'
    where b1: "broken_fade = (None, black_actuator\<lparr>bulb := None\<rparr>, tr')"
      and b2: "writes tr' = [(c1, None), (c2, None), (c3, Some (Failed ''timed out''))]"
    by blast
  have "snd (snd broken_fade) = tr'" unfolding b1 by simp
  then have w: "writes (snd (snd broken_fade)) =
      [(c1, None), (c2, None), (c3, Some (Failed ''timed out''))]"
    using b2 by simp
  have k: "(0::nat) < 3" "3 \<le> length (writes (snd (snd broken_fade)))"
    "snd (writes (snd (snd broken_fade)) ! (3 - 1)) = Some (Failed ''timed out'')"
    by (simp_all add: w)
  from fail_fast_mid_fade [OF h e] obtain evs where evs: "snd (snd broken_fade) = [] @ evs"
    and f: "\<forall>k m. 0 < k \<and> k \<le> length (writes evs) \<and> snd (writes evs ! (k - 1)) = Some (Failed m)
          \<longrightarrow> length (writes evs) = k
              \<and> map fst (writes evs) = take k (fade_colors black_actuator (0, 0, 0) (100, 200, 50))
              \<and> fst broken_fade = None \<and> bulb (fst (snd broken_fade)) = None
              \<and> last_color (fst (snd broken_fade)) = last_color black_actuator"
    by blast
  have "evs = snd (snd broken_fade)" using evs by simp
  with f k have "length (writes (snd (snd broken_fade))) = 3
   \<and> map fst (writes (snd (snd broken_fade))) =
       take 3 (fade_colors black_actuator (0, 0, 0) (100, 200, 50))
   \<and> fst broken_fade = None \<and> bulb (fst (snd broken_fade)) = None
   \<and> last_color (fst (snd broken_fade)) = last_color black_actuator"
    by blast
  then show ?thesis using h k by blast
qed

text \<open>
  C8. Guaranteed power-off. Once the controllers are constructed, whatever exception
  ends the loop (a \<open>KeyboardInterrupt\<close>, an error of the source, any other error inside
  a tick), \<^verbatim>\<open>start_bridge\<close> returns, with any larger fuel too, and \<^verbatim>\<open>turn_off\<close> has then
  been entered exactly once, after the loop ended. A device call that fails inside
  \<^verbatim>\<open>turn_off\<close> is logged and \<^verbatim>\<open>start_bridge\<close> returns normally. \<^verbatim>\<open>start_bridge\<close> never
  raises an \<open>Exception\<close>; it raises only a \<open>KeyboardInterrupt\<close> that arrives during
  \<^verbatim>\<open>turn_off\<close>.
\<close>

theorem guaranteed_power_off:
  assumes "iCueController_init env (icue_device_id cfg) tr = (Inr icue, tr1)"
    and "bridge_loop fuel env icue (MagicHomeController_init (magichome_ip cfg)) tr1 =
           (Some e, icue', mh', tr2)"
  shows "\<exists>r tr'. (\<forall>k. start_bridge env cfg (fuel + k) tr = Some (r, tr'))
    \<and> turn_off_calls tr2 = turn_off_calls tr
    \<and> turn_off_calls tr' = turn_off_calls tr + 1
    \<and> (r = None \<or> r = Some KeyboardInterrupt)
    \<and> (r = Some KeyboardInterrupt \<longrightarrow> (\<exists>c. last tr' = (c, Some Interrupted)))
    \<and> (\<forall>c m. (c, Some (Failed m))
              \<in> set (drop (length (if is_Exception e then logger ERROR ''Unexpected error'' tr2
                                     else tr2)) tr')
          \<longrightarrow> r = None
              \<and> (last tr' = (Log WARNING ''Error turning off LED strip'', None)
                  \<or> last tr' = (Log ERROR ''Error connecting to Magic Home'', None)))"
proof -
  define T where "T = (if is_Exception e then logger ERROR ''Unexpected error'' tr2 else tr2)"
  obtain r mh2 tr' where t: "turn_off env mh' T = (r, mh2, tr')"
    by (cases "turn_off env mh' T")
  note res = turn_off_result [OF t]
  have r: "r = None \<or> r = Some KeyboardInterrupt" using res by blast
  have T: "turn_off_calls T = turn_off_calls tr2"
    by (simp add: T_def turn_off_calls_logger)
  have c1: "turn_off_calls tr1 = turn_off_calls tr"
    using iCueController_init_frame [OF assms(1)] by simp
  have c2: "turn_off_calls tr2 = turn_off_calls tr"
    using bridge_loop_turn_off_calls [OF assms(2)] c1 by simp
  have "start_bridge env cfg (fuel + k) tr = Some (r, tr')" for k
    using bridge_loop_more_fuel [OF assms(2), of k] assms(1) t r
    by (auto simp add: start_bridge_def T_def)
  moreover have "turn_off_calls tr' = turn_off_calls tr + 1"
    using res T c2 by simp
  moreover have "r = Some KeyboardInterrupt \<longrightarrow> (\<exists>c. last tr' = (c, Some Interrupted))"
    using res by blast
  moreover have "r = None
              \<and> (last tr' = (Log WARNING ''Error turning off LED strip'', None)
                  \<or> last tr' = (Log ERROR ''Error connecting to Magic Home'', None))"
    if "(c, Some (Failed m)) \<in> set (drop (length T) tr')" for c m
    using turn_off_failure_logged [OF t that] by blast
  ultimately show ?thesis
    unfolding T_def [symmetric] using r c2 by blast
qed

theorem guaranteed_power_off_witness:
  "iCueController_init stop_world (icue_device_id demo_config) [] = (Inr reader, snd started)
   \<and> fst first_tick = Some KeyboardInterrupt
   \<and> (\<exists>tr'. stopped_bridge = Some (None, tr')
        \<and> turn_off_calls tr' = 1
        \<and> (Bulb_turnOff, Some (Failed ''unreachable'')) \<in> set tr'
        \<and> last tr' = (Log WARNING ''Error turning off LED strip'', None))"
proof -
  have i: "iCueController_init stop_world (icue_device_id demo_config) [] = (Inr reader, snd started)"
    using started_eq by (simp add: started_def)
  have l: "bridge_loop 1 stop_world reader (MagicHomeController_init (magichome_ip demo_config))
      (snd started) =
      (Some KeyboardInterrupt, fst (snd first_tick), fst (snd (snd first_tick)),
       snd (snd (snd first_tick)))"
    using first_tick_eq by (simp add: first_tick_def prod_eq_iff)
  from guaranteed_power_off [OF i l] obtain r tr'
    where s: "\<forall>k. start_bridge stop_world demo_config (1 + k) [] = Some (r, tr')"
      and n: "turn_off_calls tr' = turn_off_calls [] + 1"
    by blast
  from s [THEN spec, of 0] have a: "stopped_bridge = Some (r, tr')"
    by (simp add: stopped_bridge_def)
  obtain tr'' where b: "stopped_bridge = Some (None, tr'')"
    and c: "(Bulb_turnOff, Some (Failed ''unreachable'')) \<in> set tr''"
      "last tr'' = (Log WARNING ''Error turning off LED strip'', None)"
    using stopped_bridge_eval by blast
  have "Some (r, tr') = Some (None, tr'')" using a b by (rule trans [OF sym])
  then have eq: "r = None" "tr'' = tr'" by simp_all
  have "turn_off_calls tr' = 1" using n by (simp add: turn_off_calls_Nil)
  then have "stopped_bridge = Some (None, tr') \<and> turn_off_calls tr' = 1
        \<and> (Bulb_turnOff, Some (Failed ''unreachable'')) \<in> set tr'
        \<and> last tr' = (Log WARNING ''Error turning off LED strip'', None)"
    using a c unfolding eq by simp
  then show ?thesis using i first_tick_eq by blast
qed

text \<open>
  C9. Channel range. With every channel the device reports in \<open>[0,255]\<close>, every color
  the program produces has its channels in \<open>[0,255]\<close>: the aggregate that
  \<^verbatim>\<open>get_average_color\<close> returns, and every color written to the bulb, the intermediate
  colors of a fade included, by \<^verbatim>\<open>set_color\<close>, by any number of iterations of the loop
  and by a whole run of \<^verbatim>\<open>start_bridge\<close>; and the last color the actuator keeps stays in
  range.
\<close>

theorem channel_range_invariant:
  assumes "readings_ok env" and "actuator_ok magic_home" and "writes_ok tr"
  shows "(\<forall>c icue1 tr1. get_average_color env icue tr = (Inr (Some c), icue1, tr1)
            \<longrightarrow> color_ok c)
    \<and> (\<forall>c r mh1 tr1. color_ok c \<and> set_color env magic_home c tr = (r, mh1, tr1)
            \<longrightarrow> writes_ok tr1 \<and> actuator_ok mh1)
    \<and> (\<forall>fuel r icue' mh' tr'. bridge_loop fuel env icue magic_home tr = (r, icue', mh', tr')
            \<longrightarrow> writes_ok tr' \<and> actuator_ok mh')
    \<and> (\<forall>cfg fuel r tr'. start_bridge env cfg fuel tr = Some (r, tr') \<longrightarrow> writes_ok tr')"
proof -
  have "color_ok c" if "get_average_color env icue tr = (Inr (Some c), icue1, tr1)"
    for c icue1 tr1
    using assms(1) that by (rule get_average_color_color_ok)
  moreover have "writes_ok tr1 \<and> actuator_ok mh1"
    if "color_ok c \<and> set_color env magic_home c tr = (r, mh1, tr1)" for c r mh1 tr1
    using set_color_writes_ok [OF assms(2) _ assms(3)] that by blast
  moreover have "writes_ok tr' \<and> actuator_ok mh'"
    if "bridge_loop fuel env icue magic_home tr = (r, icue', mh', tr')" for fuel r icue' mh' tr'
    using bridge_loop_invariant [OF assms(1,2,3) that] by simp
  moreover have "writes_ok tr'" if "start_bridge env cfg fuel tr = Some (r, tr')"
    for cfg fuel r tr'
    using assms(1,3) that by (rule start_bridge_writes_ok)
  ultimately show ?thesis by blast
qed

theorem channel_range_invariant_witness:
  "readings_ok steady_world \<and> actuator_ok fresh_actuator \<and> writes_ok []
   \<and> get_average_color steady_world reader [] =
       (Inr (Some (127, 127, 0)), fst (snd after_steady_sample), snd (snd after_steady_sample))
   \<and> color_ok (127, 127, 0)
   \<and> writes_ok (snd (snd (snd two_ticks))) \<and> actuator_ok (fst (snd (snd two_ticks)))"
proof -
  have h: "readings_ok steady_world" "actuator_ok fresh_actuator" "writes_ok []"
    by (simp_all add: readings_ok_steady fresh_actuator_def actuator_ok_init writes_ok_def
        writes_Nil)
  note t = channel_range_invariant [OF h, of reader]
  have "color_ok (127, 127, 0)"
    using t after_steady_sample_eq by blast
  moreover have "bridge_loop 2 steady_world reader fresh_actuator [] =
      (fst two_ticks, fst (snd two_ticks), fst (snd (snd two_ticks)), snd (snd (snd two_ticks)))"
    by (simp add: two_ticks_def)
  with t have "writes_ok (snd (snd (snd two_ticks))) \<and> actuator_ok (fst (snd (snd two_ticks)))"
    by blast
  ultimately show ?thesis using h after_steady_sample_eq by blast
qed

text \<open>
  C10. The division by the element count in \<^verbatim>\<open>get_average_color\<close> is safe. The
  averaging raises \<open>ZeroDivisionError\<close> on the empty list and on no other list, and it
  is reached with a non-empty list only: whatever the world returns and whatever the
  state of the reader, neither the body of the \<^verbatim>\<open>try\<close> statement nor
  \<^verbatim>\<open>get_average_color\<close> ends in a \<open>ZeroDivisionError\<close>.
\<close>

theorem division_by_count_safe:
  "compute_average [] = Inl ZeroDivisionError
   \<and> (leds = [] \<or> (\<exists>avg. compute_average leds = Inr avg))
   \<and> fst (get_average_color_try env st d tr) \<noteq> Inl ZeroDivisionError
   \<and> fst (get_average_color env st tr) \<noteq> Inl ZeroDivisionError"
proof -
  have "compute_average [] = Inl ZeroDivisionError"
    by (simp add: compute_average_def py_truediv_def)
  moreover have "leds = [] \<or> (\<exists>avg. compute_average leds = Inr avg)"
    using compute_average_no_exception by blast
  moreover have t: "fst (get_average_color_try env st d tr) \<noteq> Inl ZeroDivisionError" for st d tr
    using get_average_color_try_not_zde [of env st d tr]
    by (cases "get_average_color_try env st d tr") auto
  moreover have "fst (get_average_color env st tr) \<noteq> Inl ZeroDivisionError"
  proof (cases "get_average_color env st tr")
    case (fields res st' tr')
    have "res \<noteq> Inl ZeroDivisionError"
      using fields
      by (auto simp add: get_average_color_def
          split: option.splits if_splits prod.splits sum.splits
          dest: reconnect_return_None_not_zde)
    then show ?thesis by (simp add: fields)
  qed
  ultimately show ?thesis by simp
qed

theorem division_by_count_safe_witness:
  "compute_average [] = Inl ZeroDivisionError
   \<and> (red_green = [] \<or> (\<exists>avg. compute_average red_green = Inr avg))
   \<and> fst (get_average_color_try (world (\<lambda>n. None) (\<lambda>n. [])) reader keyboard [])
       \<noteq> Inl ZeroDivisionError
   \<and> fst (get_average_color (world (\<lambda>n. None) (\<lambda>n. [])) reader []) \<noteq> Inl ZeroDivisionError"
  using division_by_count_safe [of red_green "world (\<lambda>n. None) (\<lambda>n. [])" reader keyboard "[]"]
  by simp


end
